theory Spec2Isabelle
  imports Main "HOL-Library.Word"
begin

section \<open>JavaScript strings\<close>

text \<open>
  A JavaScript string is a sequence of UTF-16 code units; \<open>length\<close>, \<open>slice\<close>,
  \<open>trim\<close> and regular expressions without the \<open>u\<close> flag all work on code units.
  The literals of the source are ASCII and are written with \<open>js\<close>.
\<close>

type_synonym jschar = "16 word"
type_synonym jsstring = "jschar list"

definition js :: "string \<Rightarrow> jsstring" where
  "js s = map of_char s"

definition LF :: jschar where
  "LF = 0x0A"

definition SP :: jschar where
  "SP = 0x20"

text \<open>
  The characters removed by \<open>String.prototype.trim\<close> and matched by the class \<open>\s\<close>:
  ECMAScript's WhiteSpace and LineTerminator code points (the two sets are the same).
\<close>

definition isWhiteSpace :: "jschar \<Rightarrow> bool" where
  "isWhiteSpace c \<longleftrightarrow>
     c = 0x09 \<or> c = 0x0A \<or> c = 0x0B \<or> c = 0x0C \<or> c = 0x0D \<or> c = 0x20 \<or> c = 0xA0 \<or>
     c = 0x1680 \<or> (0x2000 \<le> c \<and> c \<le> 0x200A) \<or> c = 0x2028 \<or> c = 0x2029 \<or>
     c = 0x202F \<or> c = 0x205F \<or> c = 0x3000 \<or> c = 0xFEFF"

definition trim :: "jsstring \<Rightarrow> jsstring" where
  "trim s = rev (dropWhile isWhiteSpace (rev (dropWhile isWhiteSpace s)))"

text \<open>
  \<open>s.slice(start, end)\<close>: a negative index counts from the end, both indices are
  clamped to the string, and the result is empty when the start is not before the end.
\<close>

definition js_slice :: "jsstring \<Rightarrow> int \<Rightarrow> int \<Rightarrow> jsstring" where
  "js_slice s start end =
     (let len = int (length s);
          from = (if start < 0 then max (len + start) 0 else min start len);
          to = (if end < 0 then max (len + end) 0 else min end len)
      in take (nat (to - from)) (drop (nat from) s))"

text \<open>
  Non-negative integers printed by a template literal (\<open>Number::toString\<close>, radix 10).
\<close>

fun numberToString :: "nat \<Rightarrow> jsstring" where
  "numberToString n =
     (if n < 10 then [of_nat (48 + n)]
      else numberToString (n div 10) @ [of_nat (48 + n mod 10)])"

declare numberToString.simps [simp del]

subsection \<open>Splitting on a regular expression\<close>

text \<open>
  \<open>S.split(R)\<close> for a regular expression \<open>R\<close> without capture groups, after
  ECMAScript's \<open>RegExp.prototype[@@split]\<close>. A matcher tells, for the position between
  the character \<open>prev\<close> (if any) and the remaining text, how many characters \<open>R\<close>
  matches there (\<open>None\<close>: no match at this position). The algorithm keeps the start
  \<open>p\<close> of the current piece and the position \<open>q\<close> under test; here \<open>piece\<close> is the
  text from \<open>p\<close> to \<open>q\<close>. A match that ends at \<open>p\<close> (an empty match at the start of a
  piece) is skipped; every other match closes the piece and the text after the match
  starts the next one. The text left when \<open>q\<close> reaches the end is the last piece.
\<close>

type_synonym matcher = "jschar option \<Rightarrow> jsstring \<Rightarrow> nat option"

function js_split_loop :: "matcher \<Rightarrow> jschar option \<Rightarrow> jsstring \<Rightarrow> jsstring \<Rightarrow> jsstring list" where
  "js_split_loop m prev piece [] = [piece]"
| "js_split_loop m prev piece (c # cs) =
     (case m prev (c # cs) of
        None \<Rightarrow> js_split_loop m (Some c) (piece @ [c]) cs
      | Some n \<Rightarrow>
          (let e = min n (length (c # cs)) in
           if e = 0 \<and> piece = [] then js_split_loop m (Some c) (piece @ [c]) cs
           else piece #
             js_split_loop m (if e = 0 then prev else Some ((c # cs) ! (e - 1))) []
               (drop e (c # cs))))"
  by pat_completeness auto
termination
  by (relation "measure (\<lambda>(m, prev, piece, rest). 2 * length rest + (if piece = [] then 0 else 1))")
     (auto split: if_splits)

definition js_split :: "matcher \<Rightarrow> jsstring \<Rightarrow> jsstring list" where
  "js_split m s =
     (if s = [] then (case m None [] of None \<Rightarrow> [[]] | Some n \<Rightarrow> [])
      else js_split_loop m None [] s)"

text \<open>
  The pattern \<open>/(?<=[.!?])\s+/\<close>: the character before the position is a sentence
  terminator, and the match is the whole run of white space that starts here (\<open>\s+\<close> is
  greedy and nothing follows it).
\<close>

definition sentenceBoundary :: matcher where
  "sentenceBoundary prev rest =
     (case prev of
        None \<Rightarrow> None
      | Some b \<Rightarrow>
          if (b = 0x2E \<or> b = 0x21 \<or> b = 0x3F) \<and> takeWhile isWhiteSpace rest \<noteq> []
          then Some (length (takeWhile isWhiteSpace rest))
          else None)"

text \<open>
  The pattern \<open>/\n\s*\n/\<close>: a line feed, then white space, then a line feed. \<open>\s*\<close> is
  greedy and a line feed is white space itself, so backtracking ends the match at the
  last line feed of the white-space run that follows the first one.
\<close>

definition paragraphBoundary :: matcher where
  "paragraphBoundary prev rest =
     (case rest of
        [] \<Rightarrow> None
      | c # cs \<Rightarrow>
          if c = LF then
            (let run = takeWhile isWhiteSpace cs in
             if LF \<in> set run
             then Some (1 + (length run - length (takeWhile (\<lambda>x. x \<noteq> LF) (rev run))))
             else None)
          else None)"

section \<open>The chunker\<close>

record ChunkOptions =
  maxChunkSize :: "int option"
  minChunkSize :: "int option"

record Chunk =
  chunkId :: jsstring
  docId :: jsstring
  title :: jsstring
  chunk_text :: jsstring

definition DEFAULT_MAX_CHUNK_SIZE :: int where
  "DEFAULT_MAX_CHUNK_SIZE = 500"

definition DEFAULT_MIN_CHUNK_SIZE :: int where
  "DEFAULT_MIN_CHUNK_SIZE = 100"

definition splitIntoSentences :: "jsstring \<Rightarrow> jsstring list" where
  "splitIntoSentences txt = filter (\<lambda>s. length (trim s) > 0) (js_split sentenceBoundary txt)"

text \<open>
  The inner loop of \<open>splitLargeParagraph\<close>,
  \<open>for (let i = 0; i < sentence.length; i += maxSize) chunks.push(sentence.slice(i, i + maxSize).trim())\<close>.
  Its step is \<open>maxSize\<close>, which the caller chooses, so the loop need not end: \<open>None\<close> is
  the run that never leaves the loop.
\<close>

partial_function (option) hardSplit ::
  "jsstring \<Rightarrow> int \<Rightarrow> int \<Rightarrow> jsstring list \<Rightarrow> jsstring list option" where
  "hardSplit sentence maxSize i chunks =
     (if i < int (length sentence)
      then hardSplit sentence maxSize (i + maxSize)
             (chunks @ [trim (js_slice sentence i (i + maxSize))])
      else Some chunks)"

declare hardSplit.simps [code]

definition flush :: "jsstring list \<Rightarrow> jsstring \<Rightarrow> jsstring list" where
  \<comment> \<open>\<open>if (currentChunk) chunks.push(currentChunk.trim())\<close>\<close>
  "flush chunks currentChunk = (if currentChunk \<noteq> [] then chunks @ [trim currentChunk] else chunks)"

text \<open>The loop over the sentences of \<open>splitLargeParagraph\<close>, with the final flush.\<close>

fun packSentences :: "int \<Rightarrow> jsstring list \<Rightarrow> jsstring \<Rightarrow> jsstring list \<Rightarrow> jsstring list option" where
  "packSentences maxSize chunks currentChunk [] = Some (flush chunks currentChunk)"
| "packSentences maxSize chunks currentChunk (sentence # sentences) =
     (if int (length sentence) > maxSize then
        (case hardSplit sentence maxSize 0 (flush chunks currentChunk) of
           None \<Rightarrow> None
         | Some chunks' \<Rightarrow> packSentences maxSize chunks' [] sentences)
      else if int (length currentChunk) + int (length sentence) + 1 > maxSize then
        packSentences maxSize (flush chunks currentChunk) sentence sentences
      else
        packSentences maxSize chunks
          (if currentChunk \<noteq> [] then currentChunk @ [SP] @ sentence else sentence) sentences)"

definition splitLargeParagraph :: "jsstring \<Rightarrow> int \<Rightarrow> jsstring list option" where
  "splitLargeParagraph paragraph maxSize =
     (if int (length paragraph) \<le> maxSize then Some [paragraph]
      else packSentences maxSize [] [] (splitIntoSentences paragraph))"

text \<open>The loop of \<open>mergeSmallChunks\<close>; it returns \<open>merged\<close> and \<open>currentChunk\<close>.\<close>

fun mergeLoop :: "int \<Rightarrow> int \<Rightarrow> jsstring list \<Rightarrow> jsstring \<Rightarrow> jsstring list \<Rightarrow> jsstring list \<times> jsstring" where
  "mergeLoop minSize maxSize merged currentChunk [] = (merged, currentChunk)"
| "mergeLoop minSize maxSize merged currentChunk (chunk # chunks) =
     (if currentChunk = [] then mergeLoop minSize maxSize merged chunk chunks
      else if int (length currentChunk) < minSize then
        (let combined = currentChunk @ [SP] @ chunk in
         if int (length combined) \<le> maxSize
         then mergeLoop minSize maxSize merged combined chunks
         else mergeLoop minSize maxSize (merged @ [currentChunk]) chunk chunks)
      else mergeLoop minSize maxSize (merged @ [currentChunk]) chunk chunks)"

definition mergeSmallChunks :: "jsstring list \<Rightarrow> int \<Rightarrow> int \<Rightarrow> jsstring list" where
  "mergeSmallChunks chunks minSize maxSize =
     (if length chunks \<le> 1 then chunks
      else
        (case mergeLoop minSize maxSize [] [] chunks of
           (merged, currentChunk) \<Rightarrow>
             if currentChunk \<noteq> [] then
               (if int (length currentChunk) < minSize \<and> length merged > 0 then
                  (let lastMerged = merged ! (length merged - 1);
                       combined = lastMerged @ [SP] @ currentChunk in
                   if int (length combined) \<le> maxSize
                   then merged[length merged - 1 := combined]
                   else merged @ [currentChunk])
                else merged @ [currentChunk])
             else merged))"

text \<open>The loop of \<open>chunkDocument\<close> that appends the chunks of each paragraph.\<close>

fun collectChunks :: "int \<Rightarrow> jsstring list \<Rightarrow> jsstring list \<Rightarrow> jsstring list option" where
  "collectChunks maxSize rawChunks [] = Some rawChunks"
| "collectChunks maxSize rawChunks (paragraph # paragraphs) =
     (case splitLargeParagraph paragraph maxSize of
        None \<Rightarrow> None
      | Some subChunks \<Rightarrow> collectChunks maxSize (rawChunks @ subChunks) paragraphs)"

definition maxSizeOf :: "ChunkOptions option \<Rightarrow> int" where
  \<comment> \<open>\<open>options?.maxChunkSize ?? DEFAULT_MAX_CHUNK_SIZE\<close>\<close>
  "maxSizeOf options =
     (case options of
        None \<Rightarrow> DEFAULT_MAX_CHUNK_SIZE
      | Some opts \<Rightarrow> (case maxChunkSize opts of None \<Rightarrow> DEFAULT_MAX_CHUNK_SIZE | Some v \<Rightarrow> v))"

definition minSizeOf :: "ChunkOptions option \<Rightarrow> int" where
  \<comment> \<open>\<open>options?.minChunkSize ?? DEFAULT_MIN_CHUNK_SIZE\<close>\<close>
  "minSizeOf options =
     (case options of
        None \<Rightarrow> DEFAULT_MIN_CHUNK_SIZE
      | Some opts \<Rightarrow> (case minChunkSize opts of None \<Rightarrow> DEFAULT_MIN_CHUNK_SIZE | Some v \<Rightarrow> v))"

definition paragraphsOf :: "jsstring \<Rightarrow> jsstring list" where
  \<comment> \<open>\<open>trimmedContent.split(/\n\s*\n/).map((p) => p.trim()).filter((p) => p.length > 0)\<close>\<close>
  "paragraphsOf trimmedContent =
     filter (\<lambda>p. length p > 0) (map trim (js_split paragraphBoundary trimmedContent))"

definition mkChunk :: "jsstring \<Rightarrow> jsstring \<Rightarrow> jsstring \<times> nat \<Rightarrow> Chunk" where
  "mkChunk d t p =
     \<lparr>chunkId = d @ js ''#chunk-'' @ numberToString (snd p), docId = d, title = t, chunk_text = fst p\<rparr>"

text \<open>
  \<open>chunkDocument\<close>. The option sizes are JavaScript numbers; the model takes the
  integers among them. \<open>None\<close> as a result is a call that does not return.
\<close>

definition chunkDocument ::
  "jsstring \<Rightarrow> jsstring \<Rightarrow> jsstring \<Rightarrow> ChunkOptions option \<Rightarrow> Chunk list option" where
  "chunkDocument d t content options =
     (let maxSize = maxSizeOf options;
          minSize = minSizeOf options;
          trimmedContent = trim content
      in if trimmedContent = [] then Some []
         else
           (case collectChunks maxSize [] (paragraphsOf trimmedContent) of
              None \<Rightarrow> None
            | Some rawChunks \<Rightarrow>
                (let mergedChunks = mergeSmallChunks rawChunks minSize maxSize
                 in Some (map (mkChunk d t) (zip mergedChunks [0..<length mergedChunks])))))"

section \<open>The services and the two pipelines\<close>

subsection \<open>Data\<close>

text \<open>
  The records of \<open>types/index.ts\<close>. A JavaScript number that the code only passes on
  (a score, a vector component) is a value of the type parameter \<open>'n\<close>. The fields
  \<open>id\<close> and \<open>values\<close> are written \<open>id'\<close> and \<open>values'\<close>.
\<close>

record Document =
  id' :: jsstring
  title :: jsstring
  content :: jsstring

record Source =
  docId :: jsstring
  title :: jsstring

record Metadata =
  docId :: jsstring
  title :: jsstring
  chunkText :: jsstring

record 'n PineconeMatch =
  id' :: jsstring
  score :: 'n
  metadata :: Metadata

record 'n PineconeVector =
  id' :: jsstring
  values' :: "'n list"
  metadata :: Metadata

record AskRequest =
  question :: jsstring
  topK :: int

record AskResponse =
  answer :: jsstring
  sources :: "Source list"

record IngestResponse =
  ingestedDocuments :: nat
  ingestedChunks :: nat

text \<open>
  What the vector index sends back for a query: every match has an id, and may have a
  score and a metadata object whose fields are strings, numbers, booleans or lists of
  strings.
\<close>

datatype 'n RecordMetadataValue =
    MString jsstring
  | MNumber 'n
  | MBoolean bool
  | MStrings "jsstring list"

record 'n ScoredPineconeRecord =
  id' :: jsstring
  score :: "'n option"
  metadata :: "(jsstring \<rightharpoonup> 'n RecordMetadataValue) option"

record 'n QueryResponse =
  matches :: "'n ScoredPineconeRecord list option"

text \<open>What the embedding service sends back: a vector, or a list of vectors.\<close>

datatype 'n FeatureExtractionOutput =
    Flat "'n list"
  | Nested "'n list list"

text \<open>What the generation service sends back, as far as \<open>generateAnswer\<close> reads it.\<close>

record ChatCompletionOutputMessage =
  content :: "jsstring option"

record ChatCompletionOutputComplete =
  message :: "ChatCompletionOutputMessage option"

record ChatCompletionOutput =
  choices :: "ChatCompletionOutputComplete list option"

subsection \<open>Errors and responses\<close>

text \<open>
  The values a \<open>throw\<close> can carry: an \<open>AppError\<close> (with the service of an
  \<open>ExternalServiceError\<close>, the message, the status code and \<open>isOperational\<close>), a
  \<open>ZodError\<close> (its message and its issues, of which there is at least one), any other
  \<open>Error\<close> object with its message, and a value that is not an \<open>Error\<close>.
\<close>

record ZodIssue =
  message :: jsstring
  path :: "jsstring list"

datatype exn =
    AppError "jsstring option" jsstring int bool
  | ZodError jsstring ZodIssue "ZodIssue list"
  | OtherError jsstring
  | NonError

definition ExternalServiceError :: "jsstring \<Rightarrow> jsstring \<Rightarrow> exn" where
  \<comment> \<open>\<open>super(`${service} error: ${message}`, 502)\<close>\<close>
  "ExternalServiceError service msg = AppError (Some service) (service @ js '' error: '' @ msg) 502 True"

definition errorMessage :: "exn \<Rightarrow> jsstring" where
  \<comment> \<open>\<open>err instanceof Error ? err.message : 'Unknown error'\<close>\<close>
  "errorMessage err =
     (case err of
        AppError service msg code operational \<Rightarrow> msg
      | ZodError msg issue issues \<Rightarrow> msg
      | OtherError msg \<Rightarrow> msg
      | NonError \<Rightarrow> js ''Unknown error'')"

definition isOperationalError :: "exn \<Rightarrow> bool" where
  \<comment> \<open>\<open>error instanceof AppError && error.isOperational\<close>\<close>
  "isOperationalError err =
     (case err of AppError service msg code operational \<Rightarrow> operational | _ \<Rightarrow> False)"

text \<open>
  An HTTP result: the status code and the value that \<open>JSON.stringify\<close> turns into the
  body. The headers are the same in every result and are left out.
\<close>

datatype payload =
    AskPayload AskResponse
  | IngestPayload IngestResponse
  | ErrorPayload jsstring "jsstring option"

record Response =
  statusCode :: int
  body :: payload

definition success :: "payload \<Rightarrow> Response" where
  "success data = \<lparr>statusCode = 200, body = data\<rparr>"

definition error :: "jsstring \<Rightarrow> int \<Rightarrow> jsstring option \<Rightarrow> Response" where
  "error msg code details =
     \<lparr>statusCode = code,
      body = ErrorPayload msg
        (case details of None \<Rightarrow> None | Some d \<Rightarrow> if d = [] then None else Some d)\<rparr>"

fun join :: "jsstring \<Rightarrow> jsstring list \<Rightarrow> jsstring" where
  "join sep [] = []"
| "join sep [x] = x"
| "join sep (x # y # ys) = x @ sep @ join sep (y # ys)"

definition validationError :: "ZodIssue \<Rightarrow> Response" where
  "validationError firstError =
     (let p = join (js ''.'') (ZodIssue.path firstError);
          msg = (if p \<noteq> [] then p @ js '': '' @ ZodIssue.message firstError
                 else ZodIssue.message firstError)
      in error (js ''Validation error: '' @ msg) 400 None)"

text \<open>The \<open>catch\<close> block that ends both handlers.\<close>

definition onError :: "exn \<Rightarrow> Response" where
  "onError err =
     (case err of
        ZodError msg issue issues \<Rightarrow> validationError issue
      | AppError service msg code operational \<Rightarrow>
          if isOperationalError err then error msg code None
          else error (js ''Internal server error'') 500 None
      | _ \<Rightarrow> error (js ''Internal server error'') 500 None)"

subsection \<open>The outside world\<close>

text \<open>
  The calls that leave the process, in the order they are made, and the one warning
  that \<open>deleteByDocId\<close> writes. The model name and the sampling parameters of a call
  are constants of the source and are left out.
\<close>

datatype 'n call =
    FeatureExtraction jsstring jsstring
  | ChatCompletion jsstring jsstring jsstring
  | IndexUpsert "'n PineconeVector list"
  | IndexQuery "'n list" int
  | IndexDeleteMany jsstring
  | ConsoleWarn jsstring

text \<open>
  The environment variables and the external services. A service answers a request
  with a value or throws; its answer may depend on all the calls made before. The last
  three fields are the number operations of JavaScript that the code applies to a value
  of \<open>'n\<close>: \<open>(x * 100).toFixed(1)\<close>, truthiness and \<open>String(x)\<close>.
\<close>

record 'n world =
  HUGGINGFACE_API_KEY :: "jsstring option"
  PINECONE_API_KEY :: "jsstring option"
  PINECONE_INDEX :: "jsstring option"
  featureExtraction :: "'n call list \<Rightarrow> jsstring \<Rightarrow> jsstring \<Rightarrow> exn + 'n FeatureExtractionOutput"
  chatCompletion :: "'n call list \<Rightarrow> jsstring \<Rightarrow> jsstring \<Rightarrow> jsstring \<Rightarrow> exn + ChatCompletionOutput"
  index_upsert :: "'n call list \<Rightarrow> 'n PineconeVector list \<Rightarrow> exn + unit"
  index_query :: "'n call list \<Rightarrow> 'n list \<Rightarrow> int \<Rightarrow> exn + 'n QueryResponse"
  index_deleteMany :: "'n call list \<Rightarrow> jsstring \<Rightarrow> exn + unit"
  percentToFixed1 :: "'n \<Rightarrow> jsstring"
  numberIsFalsy :: "'n \<Rightarrow> bool"
  numberToJs :: "'n \<Rightarrow> jsstring"

text \<open>
  The state of the process: the calls made so far and the two module-level caches of
  \<open>pinecone.ts\<close> (whether the client and the index handle have been created).
\<close>

record 'n state =
  calls :: "'n call list"
  pineconeClient :: bool
  pineconeIndex :: bool

definition record_call :: "'n call \<Rightarrow> 'n state \<Rightarrow> 'n state" where
  "record_call c s = s\<lparr>calls := calls s @ [c]\<rparr>"

definition envSet :: "jsstring option \<Rightarrow> jsstring option" where
  \<comment> \<open>the test \<open>if (!value)\<close> on an environment variable: unset and empty are both falsy\<close>
  "envSet v = (case v of None \<Rightarrow> None | Some x \<Rightarrow> if x = [] then None else Some x)"

subsection \<open>Embeddings\<close>

definition getApiKey :: "'n world \<Rightarrow> exn + jsstring" where
  "getApiKey w =
     (case envSet (HUGGINGFACE_API_KEY w) of
        None \<Rightarrow> Inl (ExternalServiceError (js ''HuggingFace'')
                  (js ''HUGGINGFACE_API_KEY environment variable is not set''))
      | Some apiKey \<Rightarrow> Inr apiKey)"

text \<open>
  \<open>await featureExtraction({accessToken: getApiKey(), model, inputs: text})\<close> and the
  choice between \<open>result[0]\<close> and \<open>result\<close>.
\<close>

definition callFeatureExtraction ::
  "'n world \<Rightarrow> jsstring \<Rightarrow> 'n state \<Rightarrow> (exn + 'n FeatureExtractionOutput) \<times> 'n state" where
  "callFeatureExtraction w txt s =
     (case getApiKey w of
        Inl err \<Rightarrow> (Inl err, s)
      | Inr apiKey \<Rightarrow>
          (featureExtraction w (calls s) apiKey txt, record_call (FeatureExtraction apiKey txt) s))"

definition unwrapEmbedding :: "'n FeatureExtractionOutput \<Rightarrow> 'n list" where
  "unwrapEmbedding result =
     (case result of
        Nested (v # vs) \<Rightarrow> v
      | Nested [] \<Rightarrow> []
      | Flat v \<Rightarrow> v)"

definition embedText :: "'n world \<Rightarrow> jsstring \<Rightarrow> 'n state \<Rightarrow> (exn + 'n list) \<times> 'n state" where
  "embedText w txt s =
     (case callFeatureExtraction w txt s of
        (Inl err, s') \<Rightarrow>
          (Inl (ExternalServiceError (js ''HuggingFace'')
                 (js ''Failed to generate embedding: '' @ errorMessage err)), s')
      | (Inr result, s') \<Rightarrow> (Inr (unwrapEmbedding result), s'))"

fun embedLoop ::
  "'n world \<Rightarrow> 'n list list \<Rightarrow> jsstring list \<Rightarrow> 'n state \<Rightarrow> (exn + 'n list list) \<times> 'n state" where
  "embedLoop w embeddings [] s = (Inr embeddings, s)"
| "embedLoop w embeddings (txt # texts) s =
     (case callFeatureExtraction w txt s of
        (Inl err, s') \<Rightarrow> (Inl err, s')
      | (Inr result, s') \<Rightarrow> embedLoop w (embeddings @ [unwrapEmbedding result]) texts s')"

definition embedTexts ::
  "'n world \<Rightarrow> jsstring list \<Rightarrow> 'n state \<Rightarrow> (exn + 'n list list) \<times> 'n state" where
  "embedTexts w texts s =
     (if length texts = 0 then (Inr [], s)
      else
        (case embedLoop w [] texts s of
           (Inl err, s') \<Rightarrow>
             (Inl (ExternalServiceError (js ''HuggingFace'')
                    (js ''Failed to generate embeddings: '' @ errorMessage err)), s')
         | (Inr embeddings, s') \<Rightarrow> (Inr embeddings, s')))"

subsection \<open>The vector index\<close>

definition getClient :: "'n world \<Rightarrow> 'n state \<Rightarrow> (exn + unit) \<times> 'n state" where
  "getClient w s =
     (if \<not> pineconeClient s then
        (case envSet (PINECONE_API_KEY w) of
           None \<Rightarrow> (Inl (ExternalServiceError (js ''Pinecone'')
                      (js ''PINECONE_API_KEY environment variable is not set'')), s)
         | Some apiKey \<Rightarrow> (Inr (), s\<lparr>pineconeClient := True\<rparr>))
      else (Inr (), s))"

definition getIndex :: "'n world \<Rightarrow> 'n state \<Rightarrow> (exn + unit) \<times> 'n state" where
  "getIndex w s =
     (if \<not> pineconeIndex s then
        (case envSet (PINECONE_INDEX w) of
           None \<Rightarrow> (Inl (ExternalServiceError (js ''Pinecone'')
                      (js ''PINECONE_INDEX environment variable is not set'')), s)
         | Some indexName \<Rightarrow>
             (case getClient w s of
                (Inl err, s') \<Rightarrow> (Inl err, s')
              | (Inr client, s') \<Rightarrow> (Inr (), s'\<lparr>pineconeIndex := True\<rparr>)))
      else (Inr (), s))"

definition UPSERT_BATCH_SIZE :: nat where
  "UPSERT_BATCH_SIZE = 100"

text \<open>
  \<open>for (let i = 0; i < vectors.length; i += UPSERT_BATCH_SIZE) await index.upsert(vectors.slice(i, i + UPSERT_BATCH_SIZE))\<close>
\<close>

function upsertLoop ::
  "'n world \<Rightarrow> 'n PineconeVector list \<Rightarrow> nat \<Rightarrow> 'n state \<Rightarrow> (exn + unit) \<times> 'n state" where
  "upsertLoop w vectors i s =
     (if i < length vectors then
        (let batch = take UPSERT_BATCH_SIZE (drop i vectors) in
         case index_upsert w (calls s) batch of
           Inl err \<Rightarrow> (Inl err, record_call (IndexUpsert batch) s)
         | Inr u \<Rightarrow> upsertLoop w vectors (i + UPSERT_BATCH_SIZE) (record_call (IndexUpsert batch) s))
      else (Inr (), s))"
  by pat_completeness auto
termination
  by (relation "measure (\<lambda>(w, vectors, i, s). length vectors - i)")
     (auto simp: UPSERT_BATCH_SIZE_def)

declare upsertLoop.simps [simp del]

definition upsertVectors ::
  "'n world \<Rightarrow> 'n PineconeVector list \<Rightarrow> 'n state \<Rightarrow> (exn + unit) \<times> 'n state" where
  "upsertVectors w vectors s =
     (if length vectors = 0 then (Inr (), s)
      else
        (case (case getIndex w s of
                 (Inl err, s') \<Rightarrow> (Inl err, s')
               | (Inr index, s') \<Rightarrow> upsertLoop w vectors 0 s') of
           (Inl err, s') \<Rightarrow>
             (Inl (ExternalServiceError (js ''Pinecone'')
                    (js ''Failed to upsert vectors: '' @ errorMessage err)), s')
         | (Inr u, s') \<Rightarrow> (Inr (), s')))"

text \<open>\<open>String(value || '')\<close> for a metadata field that may be missing.\<close>

definition isFalsy :: "'n world \<Rightarrow> 'n RecordMetadataValue \<Rightarrow> bool" where
  "isFalsy w v =
     (case v of
        MString x \<Rightarrow> x = []
      | MNumber n \<Rightarrow> numberIsFalsy w n
      | MBoolean b \<Rightarrow> \<not> b
      | MStrings xs \<Rightarrow> False)"

definition toJsString :: "'n world \<Rightarrow> 'n RecordMetadataValue \<Rightarrow> jsstring" where
  "toJsString w v =
     (case v of
        MString x \<Rightarrow> x
      | MNumber n \<Rightarrow> numberToJs w n
      | MBoolean b \<Rightarrow> (if b then js ''true'' else js ''false'')
      | MStrings xs \<Rightarrow> join (js '','') xs)"

definition fieldString :: "'n world \<Rightarrow> 'n RecordMetadataValue option \<Rightarrow> jsstring" where
  "fieldString w field =
     (case field of
        None \<Rightarrow> []
      | Some v \<Rightarrow> if isFalsy w v then [] else toJsString w v)"

text \<open>The loop of \<open>queryVectors\<close> over \<open>results.matches || []\<close>.\<close>

fun normalizeMatches :: "'n world \<Rightarrow> 'n ScoredPineconeRecord list \<Rightarrow> 'n PineconeMatch list" where
  "normalizeMatches w [] = []"
| "normalizeMatches w (m # ms) =
     (case (ScoredPineconeRecord.metadata m, ScoredPineconeRecord.score m) of
        (Some md, Some sc) \<Rightarrow>
          \<lparr>PineconeMatch.id' = ScoredPineconeRecord.id' m, score = sc,
           metadata = \<lparr>Metadata.docId = fieldString w (md (js ''docId'')),
                       title = fieldString w (md (js ''title'')),
                       chunkText = fieldString w (md (js ''chunkText''))\<rparr>\<rparr>
            # normalizeMatches w ms
      | _ \<Rightarrow> normalizeMatches w ms)"

definition queryVectors ::
  "'n world \<Rightarrow> 'n list \<Rightarrow> int \<Rightarrow> 'n state \<Rightarrow> (exn + 'n PineconeMatch list) \<times> 'n state" where
  "queryVectors w vector k s =
     (case (case getIndex w s of
              (Inl err, s') \<Rightarrow> (Inl err, s')
            | (Inr index, s') \<Rightarrow>
                (case index_query w (calls s') vector k of
                   Inl err \<Rightarrow> (Inl err, record_call (IndexQuery vector k) s')
                 | Inr results \<Rightarrow>
                     (Inr (normalizeMatches w
                             (case matches results of None \<Rightarrow> [] | Some ms \<Rightarrow> ms)),
                      record_call (IndexQuery vector k) s'))) of
        (Inl err, s') \<Rightarrow>
          (Inl (ExternalServiceError (js ''Pinecone'')
                 (js ''Failed to query vectors: '' @ errorMessage err)), s')
      | (Inr ms, s') \<Rightarrow> (Inr ms, s'))"

text \<open>
  \<open>deleteByDocId\<close>: the body of its \<open>try\<close>, and the \<open>catch\<close> that writes a warning
  and returns.
\<close>

definition deleteByDocIdTry :: "'n world \<Rightarrow> jsstring \<Rightarrow> 'n state \<Rightarrow> (exn + unit) \<times> 'n state" where
  "deleteByDocIdTry w d s =
     (case getIndex w s of
        (Inl err, s') \<Rightarrow> (Inl err, s')
      | (Inr index, s') \<Rightarrow>
          (case index_deleteMany w (calls s') d of
             Inl err \<Rightarrow> (Inl err, record_call (IndexDeleteMany d) s')
           | Inr u \<Rightarrow> (Inr (), record_call (IndexDeleteMany d) s')))"

definition deleteByDocId :: "'n world \<Rightarrow> jsstring \<Rightarrow> 'n state \<Rightarrow> (exn + unit) \<times> 'n state" where
  "deleteByDocId w d s =
     (case deleteByDocIdTry w d s of
        (Inl err, s') \<Rightarrow> (Inr (), record_call (ConsoleWarn d) s')
      | (Inr u, s') \<Rightarrow> (Inr (), s'))"

subsection \<open>Generation\<close>

definition SYSTEM_PROMPT :: jsstring where
  "SYSTEM_PROMPT =
     js ''You are a helpful assistant that answers questions based only on the provided context. '' @ [LF] @
     js ''Be concise and accurate. If the answer cannot be found in the context, clearly state that you don't have enough information to answer the question.'' @ [LF] @
     js ''Do not make up information or use knowledge outside of the provided context.''"

definition NO_DOCUMENTS_ANSWER :: jsstring where
  "NO_DOCUMENTS_ANSWER =
     js ''I don't have any documents to answer this question. Please ingest some documents first.''"

definition UNABLE_ANSWER :: jsstring where
  "UNABLE_ANSWER = js ''Unable to generate an answer. Please try again.''"

definition promptEntry :: "'n world \<Rightarrow> 'n PineconeMatch \<times> nat \<Rightarrow> jsstring" where
  "promptEntry w p =
     (case p of (m, i) \<Rightarrow>
        js ''['' @ numberToString (i + 1) @ js ''] '' @ [0x22] @
        Metadata.title (PineconeMatch.metadata m) @ [0x22] @ js '' (relevance: '' @
        percentToFixed1 w (PineconeMatch.score m) @ js ''%):'' @ [LF] @
        Metadata.chunkText (PineconeMatch.metadata m))"

definition buildPrompt :: "'n world \<Rightarrow> jsstring \<Rightarrow> 'n PineconeMatch list \<Rightarrow> jsstring" where
  "buildPrompt w q ms =
     (if length ms = 0 then
        js ''Question: '' @ q @ [LF, LF] @
        js ''No context documents were found. Please indicate that you cannot answer without relevant documents.''
      else
        (let context = join [LF, LF] (map (promptEntry w) (zip ms [0..<length ms])) in
         js ''Based on the following context documents, answer the question. If the answer cannot be found in the context, say '' @
         [0x22] @ js ''I don't have enough information to answer this question.'' @ [0x22] @ [LF, LF] @
         js ''Context:'' @ [LF] @ context @ [LF, LF] @ js ''Question: '' @ q))"

text \<open>\<open>response.choices?.[0]?.message?.content\<close>\<close>

definition generatedTextOf :: "ChatCompletionOutput \<Rightarrow> jsstring option" where
  "generatedTextOf response =
     (case ChatCompletionOutput.choices response of
        None \<Rightarrow> None
      | Some [] \<Rightarrow> None
      | Some (c # cs) \<Rightarrow>
          (case ChatCompletionOutputComplete.message c of
             None \<Rightarrow> None
           | Some m \<Rightarrow> ChatCompletionOutputMessage.content m))"

text \<open>The body of the \<open>try\<close> of \<open>generateAnswer\<close>.\<close>

definition generateAnswerTry ::
  "'n world \<Rightarrow> jsstring \<Rightarrow> 'n PineconeMatch list \<Rightarrow> 'n state \<Rightarrow> (exn + jsstring) \<times> 'n state" where
  "generateAnswerTry w q ms s =
     (let userPrompt = buildPrompt w q ms in
      case getApiKey w of
        Inl err \<Rightarrow> (Inl err, s)
      | Inr apiKey \<Rightarrow>
          (case chatCompletion w (calls s) apiKey SYSTEM_PROMPT userPrompt of
             Inl err \<Rightarrow> (Inl err, record_call (ChatCompletion apiKey SYSTEM_PROMPT userPrompt) s)
           | Inr response \<Rightarrow>
               (Inr (case generatedTextOf response of
                       None \<Rightarrow> UNABLE_ANSWER
                     | Some generatedText \<Rightarrow>
                         if generatedText = [] then UNABLE_ANSWER else trim generatedText),
                record_call (ChatCompletion apiKey SYSTEM_PROMPT userPrompt) s)))"

definition generateAnswer ::
  "'n world \<Rightarrow> jsstring \<Rightarrow> 'n PineconeMatch list \<Rightarrow> 'n state \<Rightarrow> (exn + jsstring) \<times> 'n state" where
  "generateAnswer w q ms s =
     (if length ms = 0 then (Inr NO_DOCUMENTS_ANSWER, s)
      else
        (case generateAnswerTry w q ms s of
           (Inl err, s') \<Rightarrow>
             (Inl (ExternalServiceError (js ''HuggingFace'')
                    (js ''Failed to generate answer: '' @ errorMessage err)), s')
         | (Inr a, s') \<Rightarrow> (Inr a, s')))"

text \<open>
  \<open>extractSources\<close>. A JavaScript \<open>Map\<close> keeps its keys in insertion order, so
  \<open>sourcesMap\<close> is a list of pairs to which a new key is appended.
\<close>

definition sourceOf :: "'n PineconeMatch \<Rightarrow> Source" where
  \<comment> \<open>\<open>{docId: match.metadata.docId, title: match.metadata.title}\<close>\<close>
  "sourceOf m =
     \<lparr>Source.docId = Metadata.docId (PineconeMatch.metadata m),
      title = Metadata.title (PineconeMatch.metadata m)\<rparr>"

fun sourcesLoop :: "(jsstring \<times> Source) list \<Rightarrow> 'n PineconeMatch list \<Rightarrow> (jsstring \<times> Source) list" where
  "sourcesLoop sourcesMap [] = sourcesMap"
| "sourcesLoop sourcesMap (m # ms) =
     (if Metadata.docId (PineconeMatch.metadata m) \<notin> fst ` set sourcesMap then
        sourcesLoop (sourcesMap @ [(Metadata.docId (PineconeMatch.metadata m), sourceOf m)]) ms
      else sourcesLoop sourcesMap ms)"

definition extractSources :: "'n PineconeMatch list \<Rightarrow> Source list" where
  "extractSources ms = map snd (sourcesLoop [] ms)"

subsection \<open>The handlers\<close>

text \<open>
  What \<open>JSON.parse\<close> and the validation schema make of the request body: the text is
  not JSON, the schema throws, or the schema accepts and returns the request.
\<close>

datatype 'a parsed =
    InvalidJson
  | ValidationFailed exn
  | Validated 'a

text \<open>
  The steps of the ask handler after validation. The \<open>console.log\<close> lines of the two
  handlers (and \<open>getChunkStats\<close>, which only feeds one of them) are left out.
\<close>

definition askSteps :: "'n world \<Rightarrow> AskRequest \<Rightarrow> 'n state \<Rightarrow> (exn + AskResponse) \<times> 'n state" where
  "askSteps w req s =
     (case embedText w (question req) s of
        (Inl err, s1) \<Rightarrow> (Inl err, s1)
      | (Inr questionVector, s1) \<Rightarrow>
          (case queryVectors w questionVector (topK req) s1 of
             (Inl err, s2) \<Rightarrow> (Inl err, s2)
           | (Inr ms, s2) \<Rightarrow>
               if length ms = 0 then
                 (Inr \<lparr>answer = NO_DOCUMENTS_ANSWER, sources = []\<rparr>, s2)
               else
                 (case generateAnswer w (question req) ms s2 of
                    (Inl err, s3) \<Rightarrow> (Inl err, s3)
                  | (Inr a, s3) \<Rightarrow> (Inr \<lparr>answer = a, sources = extractSources ms\<rparr>, s3))))"

definition askHandler :: "'n world \<Rightarrow> AskRequest parsed \<Rightarrow> 'n state \<Rightarrow> Response \<times> 'n state" where
  "askHandler w event s =
     (case event of
        InvalidJson \<Rightarrow> (error (js ''Invalid JSON in request body'') 400 None, s)
      | ValidationFailed err \<Rightarrow> (onError err, s)
      | Validated req \<Rightarrow>
          (case askSteps w req s of
             (Inl err, s') \<Rightarrow> (onError err, s')
           | (Inr response, s') \<Rightarrow> (success (AskPayload response), s')))"

definition vectorOf :: "'n list list \<Rightarrow> Chunk \<times> nat \<Rightarrow> 'n PineconeVector" where
  "vectorOf embeddings p =
     (case p of (chunk, i) \<Rightarrow>
        \<lparr>PineconeVector.id' = chunkId chunk, values' = embeddings ! i,
         metadata = \<lparr>Metadata.docId = Chunk.docId chunk, title = Chunk.title chunk,
                     chunkText = chunk_text chunk\<rparr>\<rparr>)"

text \<open>
  One turn of the loop of the ingest handler: the number of chunks ingested for the
  document, or the error that leaves the loop. The result is \<open>None\<close> if the chunker does
  not return. \<open>embedTexts\<close> returns one vector for each text, so \<open>embeddings[i]\<close> is in
  range.
\<close>

definition ingestDocument ::
  "'n world \<Rightarrow> Document \<Rightarrow> 'n state \<Rightarrow> ((exn + nat) \<times> 'n state) option" where
  "ingestDocument w doc s =
     (case deleteByDocId w (Document.id' doc) s of
        (Inl err, s1) \<Rightarrow> Some (Inl err, s1)
      | (Inr u, s1) \<Rightarrow>
          (case chunkDocument (Document.id' doc) (Document.title doc) (Document.content doc) None of
             None \<Rightarrow> None
           | Some chunks \<Rightarrow>
               if length chunks = 0 then Some (Inr 0, s1)
               else
                 (case embedTexts w (map chunk_text chunks) s1 of
                    (Inl err, s2) \<Rightarrow> Some (Inl err, s2)
                  | (Inr embeddings, s2) \<Rightarrow>
                      (let vectors = map (vectorOf embeddings) (zip chunks [0..<length chunks]) in
                       case upsertVectors w vectors s2 of
                         (Inl err, s3) \<Rightarrow> Some (Inl err, s3)
                       | (Inr u', s3) \<Rightarrow> Some (Inr (length chunks), s3)))))"

fun ingestLoop ::
  "'n world \<Rightarrow> nat \<Rightarrow> Document list \<Rightarrow> 'n state \<Rightarrow> ((exn + nat) \<times> 'n state) option" where
  "ingestLoop w totalChunks [] s = Some (Inr totalChunks, s)"
| "ingestLoop w totalChunks (doc # docs) s =
     (case ingestDocument w doc s of
        None \<Rightarrow> None
      | Some (Inl err, s') \<Rightarrow> Some (Inl err, s')
      | Some (Inr n, s') \<Rightarrow> ingestLoop w (totalChunks + n) docs s')"

definition ingestHandler ::
  "'n world \<Rightarrow> Document list parsed \<Rightarrow> 'n state \<Rightarrow> (Response \<times> 'n state) option" where
  "ingestHandler w event s =
     (case event of
        InvalidJson \<Rightarrow> Some (error (js ''Invalid JSON in request body'') 400 None, s)
      | ValidationFailed err \<Rightarrow> Some (onError err, s)
      | Validated documents \<Rightarrow>
          (case ingestLoop w 0 documents s of
             None \<Rightarrow> None
           | Some (Inl err, s') \<Rightarrow> Some (onError err, s')
           | Some (Inr totalChunks, s') \<Rightarrow>
               Some (success (IngestPayload
                      \<lparr>ingestedDocuments = length documents, ingestedChunks = totalChunks\<rparr>), s')))"

subsection \<open>Two notions for the statements about the pipelines\<close>

text \<open>
  \<open>getIndex\<close> returns the index handle when the handle is cached already, or the
  index name is set and the client is cached or its key is set.
\<close>

definition indexAvailable :: "'n world \<Rightarrow> 'n state \<Rightarrow> bool" where
  "indexAvailable w s \<longleftrightarrow>
     pineconeIndex s \<or>
     (envSet (PINECONE_INDEX w) \<noteq> None \<and> (pineconeClient s \<or> envSet (PINECONE_API_KEY w) \<noteq> None))"

text \<open>
  The state \<open>s'\<close> comes after \<open>s\<close>, and every call made in between satisfies \<open>P\<close>:
  calls are only ever appended, and a cache that is filled stays filled.
\<close>

definition later :: "('n call \<Rightarrow> bool) \<Rightarrow> 'n state \<Rightarrow> 'n state \<Rightarrow> bool" where
  "later P s s' \<longleftrightarrow>
     (\<exists>ext. calls s' = calls s @ ext \<and> (\<forall>c\<in>set ext. P c)) \<and>
     (pineconeClient s \<longrightarrow> pineconeClient s') \<and>
     (pineconeIndex s \<longrightarrow> pineconeIndex s')"

subsection \<open>A world for the examples\<close>

text \<open>
  A world whose services give the same answer to every request, with all three
  environment variables set, and the state of a process that has made no call yet.
  Numbers are integers here; zero is the falsy one.
\<close>

definition demoWorld ::
  "(exn + int FeatureExtractionOutput) \<Rightarrow> (exn + unit) \<Rightarrow> (exn + int QueryResponse) \<Rightarrow>
   (exn + ChatCompletionOutput) \<Rightarrow> int world" where
  "demoWorld embedding upserted queried completed =
     \<lparr>HUGGINGFACE_API_KEY = Some (js ''hf-key''),
      PINECONE_API_KEY = Some (js ''pc-key''),
      PINECONE_INDEX = Some (js ''docs''),
      featureExtraction = (\<lambda>history apiKey txt. embedding),
      chatCompletion = (\<lambda>history apiKey systemPrompt userPrompt. completed),
      index_upsert = (\<lambda>history batch. upserted),
      index_query = (\<lambda>history vector k. queried),
      index_deleteMany = (\<lambda>history d. Inr ()),
      percentToFixed1 = (\<lambda>n. numberToString (nat n) @ js ''.0''),
      numberIsFalsy = (\<lambda>n. n = 0),
      numberToJs = (\<lambda>n. numberToString (nat n))\<rparr>"

definition freshState :: "int state" where
  "freshState = \<lparr>calls = [], pineconeClient = False, pineconeIndex = False\<rparr>"

section \<open>Properties of the chunker\<close>

subsection \<open>Trimming and splitting\<close>

lemma trim_eq_Nil_iff: "trim s = [] \<longleftrightarrow> (\<forall>c\<in>set s. isWhiteSpace c)"
proof
  assume "trim s = []"
  then have a: "\<forall>c\<in>set (dropWhile isWhiteSpace s). isWhiteSpace c"
    by (simp add: trim_def)
  have "dropWhile isWhiteSpace s = []"
  proof (rule ccontr)
    assume n: "dropWhile isWhiteSpace s \<noteq> []"
    then have "\<not> isWhiteSpace (hd (dropWhile isWhiteSpace s))"
      by (rule hd_dropWhile)
    moreover have "hd (dropWhile isWhiteSpace s) \<in> set (dropWhile isWhiteSpace s)"
      using n by simp
    ultimately show False using a by blast
  qed
  then show "\<forall>c\<in>set s. isWhiteSpace c"
    by simp
next
  assume "\<forall>c\<in>set s. isWhiteSpace c"
  then have "dropWhile isWhiteSpace s = []"
    by simp
  then show "trim s = []"
    by (auto simp: trim_def dest: set_dropWhileD)
qed

lemma length_trim_le: "length (trim s) \<le> length s"
proof -
  have "length (trim s) \<le> length (dropWhile isWhiteSpace s)"
    unfolding trim_def using length_dropWhile_le [of isWhiteSpace "rev (dropWhile isWhiteSpace s)"]
    by simp
  also have "\<dots> \<le> length s"
    by (rule length_dropWhile_le)
  finally show ?thesis .
qed

lemma hd_trim: assumes "trim s \<noteq> []" shows "\<not> isWhiteSpace (hd (trim s))"
proof -
  define t where "t = dropWhile isWhiteSpace s"
  have t: "t \<noteq> []" using assms by (auto simp: trim_def t_def dest: set_dropWhileD)
  then have ht: "\<not> isWhiteSpace (hd t)"
    unfolding t_def by (rule hd_dropWhile)
  define u where "u = dropWhile isWhiteSpace (rev t)"
  have u: "u \<noteq> []" using assms by (simp add: trim_def t_def u_def)
  have "rev t = takeWhile isWhiteSpace (rev t) @ u"
    by (simp add: u_def)
  then have "last (rev t) = last u" using u
    by (metis last_appendR)
  then have "hd t = last u" using t by (simp add: last_rev)
  moreover have "hd (trim s) = last u"
    using u by (simp add: trim_def t_def u_def hd_rev)
  ultimately show ?thesis using ht by simp
qed

lemma js_split_loop_hd:
  "piece \<noteq> [] \<Longrightarrow> \<exists>suffix rest. js_split_loop m prev piece s = (piece @ suffix) # rest"
proof (induction m prev piece s rule: js_split_loop.induct)
  case (1 m prev piece)
  then show ?case by simp
next
  case (2 m prev piece c cs)
  show ?case
  proof (cases "m prev (c # cs)")
    case None
    with 2 show ?thesis by fastforce
  next
    case (Some n)
    with 2 show ?thesis by (simp add: Let_def)
  qed
qed

lemma js_split_first:
  assumes "m None (c # cs) = None"
  shows "\<exists>suffix rest. js_split m (c # cs) = (c # suffix) # rest"
  using assms js_split_loop_hd [of "[c]" m "Some c" cs] by (simp add: js_split_def)

lemma LF_white: "isWhiteSpace LF"
  by (simp add: isWhiteSpace_def LF_def)

lemma paragraphBoundary_start: "\<not> isWhiteSpace c \<Longrightarrow> paragraphBoundary prev (c # cs) = None"
  using LF_white by (auto simp: paragraphBoundary_def)

lemma sentenceBoundary_start: "sentenceBoundary None s = None"
  by (simp add: sentenceBoundary_def)

lemma paragraphsOf_props:
  assumes "s \<noteq> []" "\<not> isWhiteSpace (hd s)"
  shows "paragraphsOf s \<noteq> []"
proof -
  obtain c cs where s: "s = c # cs" using assms(1) by (cases s) auto
  with assms(2) have "paragraphBoundary None (c # cs) = None"
    by (simp add: paragraphBoundary_start)
  from js_split_first [of paragraphBoundary c cs, OF this] obtain suffix rest
    where sp: "js_split paragraphBoundary s = (c # suffix) # rest" unfolding s by blast
  have "trim (c # suffix) \<noteq> []"
    using assms(2) s by (auto simp: trim_eq_Nil_iff)
  then show ?thesis by (simp add: paragraphsOf_def sp)
qed

lemma paragraphsOf_elem:
  assumes "p \<in> set (paragraphsOf s)"
  shows "p \<noteq> [] \<and> \<not> isWhiteSpace (hd p)"
proof -
  from assms obtain x where "p = trim x" "p \<noteq> []"
    by (auto simp: paragraphsOf_def)
  then show ?thesis using hd_trim [of x] by simp
qed

lemma splitIntoSentences_props:
  assumes "p \<noteq> []" "\<not> isWhiteSpace (hd p)"
  shows "splitIntoSentences p \<noteq> []"
proof -
  obtain c cs where p: "p = c # cs" using assms(1) by (cases p) auto
  from js_split_first [of sentenceBoundary c cs, OF sentenceBoundary_start] obtain suffix rest
    where sp: "js_split sentenceBoundary p = (c # suffix) # rest" unfolding p by blast
  have "trim (c # suffix) \<noteq> []"
    using assms(2) p by (auto simp: trim_eq_Nil_iff)
  then show ?thesis by (simp add: splitIntoSentences_def sp)
qed

lemma splitIntoSentences_elem: "s \<in> set (splitIntoSentences p) \<Longrightarrow> trim s \<noteq> []"
  by (simp add: splitIntoSentences_def)

subsection \<open>The hard split of a long sentence\<close>

lemma js_slice_window:
  assumes "0 \<le> i" "0 < m"
  shows "js_slice s i (i + m) = take (nat m) (drop (nat i) s)"
proof (cases "i + m \<le> int (length s)")
  case True
  with assms show ?thesis by (simp add: js_slice_def Let_def min_def)
next
  case False
  with assms show ?thesis by (auto simp: js_slice_def Let_def min_def)
qed

lemma hardSplit_Some:
  assumes "0 < m" "0 \<le> i"
  shows "\<exists>new. hardSplit s m i chunks = Some (chunks @ new) \<and>
           (\<forall>x\<in>set new. int (length x) \<le> m) \<and>
           ((\<exists>c\<in>set (drop (nat i) s). \<not> isWhiteSpace c) \<longrightarrow> (\<exists>x\<in>set new. x \<noteq> []))"
  using assms(2)
proof (induction "nat (int (length s) - i)" arbitrary: i chunks rule: less_induct)
  case less
  show ?case
  proof (cases "i < int (length s)")
    case False
    then have "hardSplit s m i chunks = Some chunks"
      by (subst hardSplit.simps) simp
    moreover have "drop (nat i) s = []" using False less.prems by simp
    ultimately show ?thesis by simp
  next
    case True
    define x where "x = trim (js_slice s i (i + m))"
    have step: "hardSplit s m i chunks = hardSplit s m (i + m) (chunks @ [x])"
      using True by (subst hardSplit.simps) (simp add: x_def)
    have "nat (int (length s) - (i + m)) < nat (int (length s) - i)"
      using True assms(1) by simp
    moreover have "0 \<le> i + m" using less.prems assms(1) by simp
    ultimately obtain new where new:
      "hardSplit s m (i + m) (chunks @ [x]) = Some ((chunks @ [x]) @ new)"
      "\<forall>y\<in>set new. int (length y) \<le> m"
      "(\<exists>c\<in>set (drop (nat (i + m)) s). \<not> isWhiteSpace c) \<longrightarrow> (\<exists>y\<in>set new. y \<noteq> [])"
      using less.hyps [of "i + m" "chunks @ [x]"] by blast
    have win: "js_slice s i (i + m) = take (nat m) (drop (nat i) s)"
      using less.prems assms(1) by (rule js_slice_window)
    have "length x \<le> nat m"
      using length_trim_le [of "take (nat m) (drop (nat i) s)"] by (simp add: x_def win)
    then have lx: "int (length x) \<le> m"
      using assms(1) by linarith
    have ne: "\<exists>y\<in>set (x # new). y \<noteq> []" if c: "c \<in> set (drop (nat i) s)" "\<not> isWhiteSpace c" for c
    proof -
      have "drop (nat (i + m)) s = drop (nat m) (drop (nat i) s)"
        using less.prems assms(1) by (simp add: nat_add_distrib add.commute)
      then have "drop (nat i) s = take (nat m) (drop (nat i) s) @ drop (nat (i + m)) s"
        using append_take_drop_id [of "nat m" "drop (nat i) s"] by simp
      then have "c \<in> set (take (nat m) (drop (nat i) s)) \<or> c \<in> set (drop (nat (i + m)) s)"
        using c(1) by (metis Un_iff set_append)
      then show ?thesis
      proof
        assume "c \<in> set (take (nat m) (drop (nat i) s))"
        then have "x \<noteq> []" using c(2) by (auto simp: x_def win trim_eq_Nil_iff)
        then show ?thesis by simp
      next
        assume "c \<in> set (drop (nat (i + m)) s)"
        with new(3) c(2) show ?thesis by auto
      qed
    qed
    show ?thesis
    proof (intro exI [of _ "x # new"] conjI)
      show "hardSplit s m i chunks = Some (chunks @ x # new)"
        using step new(1) by simp
      show "\<forall>y\<in>set (x # new). int (length y) \<le> m"
        using lx new(2) by simp
      show "(\<exists>c\<in>set (drop (nat i) s). \<not> isWhiteSpace c) \<longrightarrow> (\<exists>y\<in>set (x # new). y \<noteq> [])"
        using ne by blast
    qed
  qed
qed

lemma hardSplit_stuck_aux:
  assumes "hardSplit s m i chunks = Some r"
  shows "\<not> (m \<le> 0 \<and> i < int (length s))"
proof (rule hardSplit.raw_induct
    [where P = "\<lambda>s m i chunks r. \<not> (m \<le> 0 \<and> i < int (length s))", OF _ assms])
  fix f s m i chunks r
  assume ih: "\<And>s m i chunks y. f s m i chunks = Some y \<Longrightarrow> \<not> (m \<le> 0 \<and> i < int (length s))"
    and eq: "(if i < int (length s)
              then f s m (i + m) (chunks @ [trim (js_slice s i (i + m))])
              else Some chunks) = Some r"
  show "\<not> (m \<le> 0 \<and> i < int (length s))"
  proof
    assume a: "m \<le> 0 \<and> i < int (length s)"
    with eq have "f s m (i + m) (chunks @ [trim (js_slice s i (i + m))]) = Some r"
      by simp
    from ih [OF this] a show False by simp
  qed
qed

lemma hardSplit_diverges:
  "m \<le> 0 \<Longrightarrow> i < int (length s) \<Longrightarrow> hardSplit s m i chunks = None"
  using hardSplit_stuck_aux [of s m i chunks] by (cases "hardSplit s m i chunks") auto

subsection \<open>Packing, collecting and merging\<close>

lemma flush_bound:
  "\<forall>x\<in>set chunks. int (length x) \<le> m \<Longrightarrow> int (length cur) \<le> m \<Longrightarrow>
   \<forall>x\<in>set (flush chunks cur). int (length x) \<le> m"
  using length_trim_le [of cur] by (auto simp: flush_def)

lemma flush_nonempty:
  "(\<exists>x\<in>set chunks. x \<noteq> []) \<or> trim cur \<noteq> [] \<Longrightarrow> \<exists>x\<in>set (flush chunks cur). x \<noteq> []"
  by (auto simp: flush_def trim_eq_Nil_iff)

lemma hardSplit_zero:
  "0 < m \<Longrightarrow> \<exists>new. hardSplit s m 0 chunks = Some (chunks @ new) \<and>
     (\<forall>x\<in>set new. int (length x) \<le> m) \<and>
     ((\<exists>c\<in>set s. \<not> isWhiteSpace c) \<longrightarrow> (\<exists>x\<in>set new. x \<noteq> []))"
  using hardSplit_Some [of m 0 s chunks] by simp

lemma packSentences_total:
  "0 < m \<Longrightarrow> \<exists>r. packSentences m chunks cur ss = Some r"
proof (induction ss arbitrary: chunks cur)
  case Nil
  then show ?case by simp
next
  case (Cons s ss)
  obtain new where "hardSplit s m 0 (flush chunks cur) = Some (flush chunks cur @ new)"
    using hardSplit_zero [of m s "flush chunks cur"] Cons.prems by blast
  then show ?case using Cons.IH [OF Cons.prems] by simp
qed

lemma packSentences_bound:
  "0 < m \<Longrightarrow> packSentences m chunks cur ss = Some r \<Longrightarrow>
   \<forall>x\<in>set chunks. int (length x) \<le> m \<Longrightarrow> int (length cur) \<le> m \<Longrightarrow>
   \<forall>x\<in>set r. int (length x) \<le> m"
proof (induction ss arbitrary: chunks cur)
  case Nil
  then show ?case using flush_bound [of chunks m cur] by simp
next
  case (Cons s ss)
  have fb: "\<forall>x\<in>set (flush chunks cur). int (length x) \<le> m"
    using Cons.prems(3,4) by (rule flush_bound)
  show ?case
  proof (cases "int (length s) > m")
    case True
    obtain new where new: "hardSplit s m 0 (flush chunks cur) = Some (flush chunks cur @ new)"
      "\<forall>x\<in>set new. int (length x) \<le> m"
      using hardSplit_zero [of m s "flush chunks cur"] Cons.prems(1) by blast
    with True Cons.prems(2) have run: "packSentences m (flush chunks cur @ new) [] ss = Some r"
      by simp
    have bnd: "\<forall>x\<in>set (flush chunks cur @ new). int (length x) \<le> m"
      using fb new(2) by auto
    have "int (length ([] :: jsstring)) \<le> m" using Cons.prems(1) by simp
    with Cons.prems(1) run bnd show ?thesis by (rule Cons.IH)
  next
    case False
    then have ls: "int (length s) \<le> m" by simp
    show ?thesis
    proof (cases "int (length cur) + int (length s) + 1 > m")
      case True
      with False Cons.prems(2) have run: "packSentences m (flush chunks cur) s ss = Some r"
        by simp
      from Cons.prems(1) run fb ls show ?thesis by (rule Cons.IH)
    next
      case b: False
      define cur' where "cur' = (if cur \<noteq> [] then cur @ [SP] @ s else s)"
      from False b Cons.prems(2) have run: "packSentences m chunks cur' ss = Some r"
        by (simp add: cur'_def)
      have len: "int (length cur') \<le> m" using False b by (simp add: cur'_def)
      from Cons.prems(1) run Cons.prems(3) len show ?thesis by (rule Cons.IH)
    qed
  qed
qed

lemma packSentences_nonempty:
  "0 < m \<Longrightarrow> packSentences m chunks cur ss = Some r \<Longrightarrow>
   (\<exists>x\<in>set chunks. x \<noteq> []) \<or> trim cur \<noteq> [] \<or> (\<exists>s\<in>set ss. trim s \<noteq> []) \<Longrightarrow>
   \<exists>x\<in>set r. x \<noteq> []"
proof (induction ss arbitrary: chunks cur)
  case Nil
  then show ?case using flush_nonempty [of chunks cur] by simp
next
  case (Cons s ss)
  show ?case
  proof (cases "int (length s) > m")
    case True
    obtain new where new: "hardSplit s m 0 (flush chunks cur) = Some (flush chunks cur @ new)"
      "(\<exists>c\<in>set s. \<not> isWhiteSpace c) \<longrightarrow> (\<exists>x\<in>set new. x \<noteq> [])"
      using hardSplit_zero [of m s "flush chunks cur"] Cons.prems(1) by blast
    with True Cons.prems(2) have run: "packSentences m (flush chunks cur @ new) [] ss = Some r"
      by simp
    have "(\<exists>x\<in>set (flush chunks cur @ new). x \<noteq> []) \<or> (\<exists>s\<in>set ss. trim s \<noteq> [])"
      using Cons.prems(3) new(2) flush_nonempty [of chunks cur]
      by (auto simp: trim_eq_Nil_iff)
    then show ?thesis using Cons.IH [OF Cons.prems(1) run] by blast
  next
    case False
    show ?thesis
    proof (cases "int (length cur) + int (length s) + 1 > m")
      case True
      with False Cons.prems(2) have run: "packSentences m (flush chunks cur) s ss = Some r"
        by simp
      have "(\<exists>x\<in>set (flush chunks cur). x \<noteq> []) \<or> trim s \<noteq> [] \<or> (\<exists>s\<in>set ss. trim s \<noteq> [])"
        using Cons.prems(3) flush_nonempty [of chunks cur] by auto
      then show ?thesis using Cons.IH [OF Cons.prems(1) run] by blast
    next
      case b: False
      define cur' where "cur' = (if cur \<noteq> [] then cur @ [SP] @ s else s)"
      from False b Cons.prems(2) have run: "packSentences m chunks cur' ss = Some r"
        by (simp add: cur'_def)
      have "(\<exists>x\<in>set chunks. x \<noteq> []) \<or> trim cur' \<noteq> [] \<or> (\<exists>s\<in>set ss. trim s \<noteq> [])"
        using Cons.prems(3) by (auto simp: cur'_def trim_eq_Nil_iff)
      then show ?thesis using Cons.IH [OF Cons.prems(1) run] by blast
    qed
  qed
qed

lemma splitLargeParagraph_Some:
  assumes "0 < m"
  shows "\<exists>r. splitLargeParagraph p m = Some r \<and> (\<forall>x\<in>set r. int (length x) \<le> m) \<and>
           (p \<noteq> [] \<and> \<not> isWhiteSpace (hd p) \<longrightarrow> (\<exists>x\<in>set r. x \<noteq> []))"
proof (cases "int (length p) \<le> m")
  case True
  then show ?thesis by (simp add: splitLargeParagraph_def)
next
  case False
  obtain r where r: "packSentences m [] [] (splitIntoSentences p) = Some r"
    using packSentences_total [OF assms] by blast
  have b: "\<forall>x\<in>set r. int (length x) \<le> m"
    using packSentences_bound [OF assms r] assms by simp
  have n: "\<exists>x\<in>set r. x \<noteq> []" if "p \<noteq> []" "\<not> isWhiteSpace (hd p)"
  proof -
    from splitIntoSentences_props [OF that] obtain s where "s \<in> set (splitIntoSentences p)"
      by (cases "splitIntoSentences p") auto
    then have "\<exists>s\<in>set (splitIntoSentences p). trim s \<noteq> []"
      using splitIntoSentences_elem by blast
    then show ?thesis using packSentences_nonempty [OF assms r] by blast
  qed
  from False r b n show ?thesis by (simp add: splitLargeParagraph_def)
qed

lemma collectChunks_Some:
  assumes "0 < m"
  shows "\<exists>r. collectChunks m raw ps = Some r \<and>
           ((\<forall>x\<in>set raw. int (length x) \<le> m) \<longrightarrow> (\<forall>x\<in>set r. int (length x) \<le> m)) \<and>
           ((\<exists>x\<in>set raw. x \<noteq> []) \<or> (ps \<noteq> [] \<and> (\<forall>p\<in>set ps. p \<noteq> [] \<and> \<not> isWhiteSpace (hd p)))
              \<longrightarrow> (\<exists>x\<in>set r. x \<noteq> []))"
proof (induction ps arbitrary: raw)
  case Nil
  then show ?case by simp
next
  case (Cons p ps)
  obtain sub where sub: "splitLargeParagraph p m = Some sub" "\<forall>x\<in>set sub. int (length x) \<le> m"
    "p \<noteq> [] \<and> \<not> isWhiteSpace (hd p) \<longrightarrow> (\<exists>x\<in>set sub. x \<noteq> [])"
    using splitLargeParagraph_Some [OF assms, of p] by blast
  obtain r where r: "collectChunks m (raw @ sub) ps = Some r"
    "(\<forall>x\<in>set (raw @ sub). int (length x) \<le> m) \<longrightarrow> (\<forall>x\<in>set r. int (length x) \<le> m)"
    "(\<exists>x\<in>set (raw @ sub). x \<noteq> []) \<or> (ps \<noteq> [] \<and> (\<forall>p\<in>set ps. p \<noteq> [] \<and> \<not> isWhiteSpace (hd p)))
       \<longrightarrow> (\<exists>x\<in>set r. x \<noteq> [])"
    using Cons.IH [of "raw @ sub"] by blast
  show ?case
  proof (intro exI [of _ r] conjI impI)
    show "collectChunks m raw (p # ps) = Some r" using sub(1) r(1) by simp
    show "\<forall>x\<in>set r. int (length x) \<le> m" if "\<forall>x\<in>set raw. int (length x) \<le> m"
      using that sub(2) r(2) by auto
    show "\<exists>x\<in>set r. x \<noteq> []"
      if "(\<exists>x\<in>set raw. x \<noteq> []) \<or> (p # ps \<noteq> [] \<and> (\<forall>q\<in>set (p # ps). q \<noteq> [] \<and> \<not> isWhiteSpace (hd q)))"
    proof -
      from that sub(3) have "\<exists>x\<in>set (raw @ sub). x \<noteq> []" by auto
      with r(3) show ?thesis by blast
    qed
  qed
qed

lemma splitLargeParagraph_diverges:
  assumes "m \<le> 0" "p \<noteq> []" "\<not> isWhiteSpace (hd p)"
  shows "splitLargeParagraph p m = None"
proof -
  obtain s ss where ss: "splitIntoSentences p = s # ss"
    using splitIntoSentences_props [OF assms(2,3)] by (cases "splitIntoSentences p") auto
  then have "trim s \<noteq> []" using splitIntoSentences_elem [of s p] by simp
  then have "s \<noteq> []" by (auto simp: trim_eq_Nil_iff)
  then have len: "0 < int (length s)" by simp
  then have "hardSplit s m 0 (flush [] []) = None"
    using assms(1) by (intro hardSplit_diverges) auto
  moreover have "\<not> int (length p) \<le> m" using assms(1,2) by (cases p) auto
  moreover have "m < int (length s)" using len assms(1) by linarith
  ultimately show ?thesis by (simp add: splitLargeParagraph_def ss)
qed


lemma mergeLoop_nonempty:
  "mergeLoop mn mx merged cur chunks = (merged', cur') \<Longrightarrow>
   merged \<noteq> [] \<or> cur \<noteq> [] \<or> (\<exists>x\<in>set chunks. x \<noteq> []) \<Longrightarrow> merged' \<noteq> [] \<or> cur' \<noteq> []"
proof (induction chunks arbitrary: merged cur)
  case Nil
  then show ?case by simp
next
  case (Cons c chunks)
  show ?case
  proof (cases "cur = []")
    case True
    with Cons.prems have "mergeLoop mn mx merged c chunks = (merged', cur')" by simp
    then show ?thesis using Cons.IH [of merged c] Cons.prems True by auto
  next
    case False
    show ?thesis
    proof (cases "int (length cur) < mn \<and> int (length (cur @ [SP] @ c)) \<le> mx")
      case True
      with False Cons.prems(1) have "mergeLoop mn mx merged (cur @ [SP] @ c) chunks = (merged', cur')"
        by (simp add: Let_def)
      then show ?thesis using Cons.IH [of merged "cur @ [SP] @ c"] by simp
    next
      case b: False
      with False Cons.prems(1) have "mergeLoop mn mx (merged @ [cur]) c chunks = (merged', cur')"
        by (auto simp: Let_def split: if_splits)
      then show ?thesis using Cons.IH [of "merged @ [cur]" c] by simp
    qed
  qed
qed


lemma mergeSmallChunks_nonempty:
  assumes "\<exists>x\<in>set chunks. x \<noteq> []"
  shows "mergeSmallChunks chunks mn mx \<noteq> []"
proof (cases "length chunks \<le> 1")
  case True
  with assms show ?thesis by (auto simp: mergeSmallChunks_def)
next
  case False
  obtain merged cur where ml: "mergeLoop mn mx [] [] chunks = (merged, cur)"
    by (cases "mergeLoop mn mx [] [] chunks") auto
  from mergeLoop_nonempty [OF ml] assms have ne: "merged \<noteq> [] \<or> cur \<noteq> []" by simp
  define combined where "combined = merged ! (length merged - 1) @ [SP] @ cur"
  have res: "mergeSmallChunks chunks mn mx =
    (if cur \<noteq> [] then
       (if int (length cur) < mn \<and> length merged > 0 then
          (if int (length combined) \<le> mx then merged[length merged - 1 := combined]
           else merged @ [cur])
        else merged @ [cur])
     else merged)"
    using False by (simp add: mergeSmallChunks_def ml Let_def combined_def)
  show ?thesis
    unfolding res using ne by (auto split: if_splits)
qed

subsection \<open>Chunk identifiers and the whole chunker\<close>

lemma unat_digit:
  assumes "a < 10"
  shows "unat (of_nat (48 + a) :: jschar) = 48 + a"
proof -
  have "unat (of_nat (48 + a) :: jschar) = (48 + a) mod 2 ^ LENGTH(16)"
    by (rule unat_of_nat)
  also have "\<dots> = 48 + a" using assms by simp
  finally show ?thesis .
qed

lemma digit_inj:
  assumes "a < 10" "b < 10" "(of_nat (48 + a) :: jschar) = of_nat (48 + b)"
  shows "a = b"
proof -
  have "unat (of_nat (48 + a) :: jschar) = unat (of_nat (48 + b) :: jschar)"
    by (simp only: assms(3))
  then show ?thesis
    by (simp only: unat_digit [OF assms(1)] unat_digit [OF assms(2)] add_left_cancel)
qed

lemma numberToString_nonempty: "numberToString n \<noteq> []"
  by (subst numberToString.simps) simp

lemma numberToString_inj: "numberToString a = numberToString b \<Longrightarrow> a = b"
proof (induction a arbitrary: b rule: numberToString.induct)
  case (1 a)
  show ?case
  proof (cases "a < 10")
    case True
    then have sa: "numberToString a = [of_nat (48 + a)]"
      by (subst numberToString.simps) simp
    show ?thesis
    proof (cases "b < 10")
      case b: True
      then have "numberToString b = [of_nat (48 + b)]"
        by (subst numberToString.simps) simp
      with sa "1.prems" have "(of_nat (48 + a) :: jschar) = of_nat (48 + b)" by simp
      with True b show ?thesis by (intro digit_inj)
    next
      case False
      then have "numberToString b = numberToString (b div 10) @ [of_nat (48 + b mod 10)]"
        by (subst numberToString.simps) simp
      with sa "1.prems" numberToString_nonempty [of "b div 10"] show ?thesis by simp
    qed
  next
    case False
    then have sa: "numberToString a = numberToString (a div 10) @ [of_nat (48 + a mod 10)]"
      by (subst numberToString.simps) simp
    show ?thesis
    proof (cases "b < 10")
      case True
      then have "numberToString b = [of_nat (48 + b)]"
        by (subst numberToString.simps) simp
      with sa "1.prems" numberToString_nonempty [of "a div 10"] show ?thesis by simp
    next
      case b: False
      then have "numberToString b = numberToString (b div 10) @ [of_nat (48 + b mod 10)]"
        by (subst numberToString.simps) simp
      with sa "1.prems" have eq: "numberToString (a div 10) = numberToString (b div 10)"
        "(of_nat (48 + a mod 10) :: jschar) = of_nat (48 + b mod 10)" by simp_all
      from "1.IH" [OF False eq(1)] have "a div 10 = b div 10" .
      moreover have "a mod 10 = b mod 10"
        using eq(2) by (intro digit_inj) simp_all
      ultimately show ?thesis by (metis div_mult_mod_eq)
    qed
  qed
qed

lemma mkChunk_nth:
  assumes "i < length xs"
  shows "map (mkChunk d t) (zip xs [0..<length xs]) ! i =
         \<lparr>chunkId = d @ js ''#chunk-'' @ numberToString i, docId = d, title = t, chunk_text = xs ! i\<rparr>"
  using assms by (simp add: mkChunk_def)

lemma mkChunk_ids:
  "map chunkId (map (mkChunk d t) (zip xs [0..<length xs])) =
   map (\<lambda>i. d @ js ''#chunk-'' @ numberToString i) [0..<length xs]"
  by (rule nth_equalityI) (simp_all add: mkChunk_def)


lemma chunkIds_distinct:
  "distinct (map (\<lambda>i. d @ js ''#chunk-'' @ numberToString i) [0..<n])"
proof -
  have "inj_on (\<lambda>i. d @ js ''#chunk-'' @ numberToString i) (set [0..<n])"
    by (rule inj_onI) (simp add: numberToString_inj)
  then show ?thesis by (simp add: distinct_map)
qed

lemma chunkDocument_blank:
  "trim input = [] \<Longrightarrow> chunkDocument d t input options = Some []"
  by (simp add: chunkDocument_def)

lemma chunkDocument_run:
  assumes "0 < maxSizeOf options" "trim input \<noteq> []"
  shows "\<exists>raw. collectChunks (maxSizeOf options) [] (paragraphsOf (trim input)) = Some raw \<and>
           (\<forall>x\<in>set raw. int (length x) \<le> maxSizeOf options) \<and> (\<exists>x\<in>set raw. x \<noteq> [])"
proof -
  have "paragraphsOf (trim input) \<noteq> []"
    using assms(2) hd_trim [OF assms(2)] by (rule paragraphsOf_props)
  moreover have "\<forall>p\<in>set (paragraphsOf (trim input)). p \<noteq> [] \<and> \<not> isWhiteSpace (hd p)"
    using paragraphsOf_elem by blast
  ultimately show ?thesis
    using collectChunks_Some [OF assms(1), of "[]" "paragraphsOf (trim input)"] by auto
qed

lemma chunkDocument_shape:
  assumes "chunkDocument d t input options = Some cs"
  shows "\<exists>merged. cs = map (mkChunk d t) (zip merged [0..<length merged])"
  using assms by (auto simp: chunkDocument_def Let_def split: if_splits option.splits)

lemma chunkDocument_diverges:
  assumes "maxSizeOf options \<le> 0" "trim input \<noteq> []"
  shows "chunkDocument d t input options = None"
proof -
  have "paragraphsOf (trim input) \<noteq> []"
    using assms(2) hd_trim [OF assms(2)] by (rule paragraphsOf_props)
  then obtain p ps where ps: "paragraphsOf (trim input) = p # ps"
    by (cases "paragraphsOf (trim input)") auto
  then have "p \<noteq> [] \<and> \<not> isWhiteSpace (hd p)"
    using paragraphsOf_elem [of p "trim input"] by simp
  then have "splitLargeParagraph p (maxSizeOf options) = None"
    using assms(1) by (intro splitLargeParagraph_diverges) auto
  then show ?thesis using assms(2) by (simp add: chunkDocument_def ps)
qed

lemma chunkDocument_total:
  assumes "0 < maxSizeOf options"
  shows "\<exists>cs. chunkDocument d t input options = Some cs"
proof (cases "trim input = []")
  case True
  then show ?thesis by (simp add: chunkDocument_blank)
next
  case False
  from chunkDocument_run [OF assms False] obtain raw where
    "collectChunks (maxSizeOf options) [] (paragraphsOf (trim input)) = Some raw" by blast
  then show ?thesis using False by (simp add: chunkDocument_def Let_def)
qed

text \<open>
  Claim C1, for the sizes on which the chunker returns. With a positive \<open>maxChunkSize\<close>
  (and any \<open>minChunkSize\<close>, any \<open>docId\<close>, \<open>title\<close> and \<open>content\<close>),
  \<open>chunkDocument\<close> returns, and what it returns is the empty sequence exactly when
  the trimmed content is empty.
\<close>

theorem chunkDocument_empty_iff:
  assumes "0 < maxSizeOf options"
  shows "\<exists>cs. chunkDocument d t input options = Some cs \<and> (cs = [] \<longleftrightarrow> trim input = [])"
proof (cases "trim input = []")
  case True
  then show ?thesis by (simp add: chunkDocument_blank)
next
  case False
  from chunkDocument_run [OF assms False] obtain raw where
    raw: "collectChunks (maxSizeOf options) [] (paragraphsOf (trim input)) = Some raw"
    "\<exists>x\<in>set raw. x \<noteq> []" by blast
  have "mergeSmallChunks raw (minSizeOf options) (maxSizeOf options) \<noteq> []"
    using raw(2) by (rule mergeSmallChunks_nonempty)
  then show ?thesis using False raw(1) by (simp add: chunkDocument_def Let_def)
qed

theorem chunkDocument_empty_iff_witness:
  "0 < maxSizeOf None \<and>
   (\<exists>cs. chunkDocument (js ''doc-1'') (js ''T'') (js ''Para 1.'') None = Some cs \<and>
      (cs = [] \<longleftrightarrow> trim (js ''Para 1.'') = []))"
proof -
  have h: "0 < maxSizeOf None"
    by (simp add: maxSizeOf_def DEFAULT_MAX_CHUNK_SIZE_def)
  show ?thesis
    using h chunkDocument_empty_iff [OF h, of "js ''doc-1''" "js ''T''" "js ''Para 1.''"] by simp
qed

text \<open>
  The claim does not hold for every options value: with \<open>maxChunkSize = 0\<close> the hard
  split advances by zero characters, and \<open>chunkDocument\<close> does not return on the
  content \<open>"a"\<close>, whose trimmed text is not empty.
\<close>

theorem chunkDocument_maxChunkSize_zero_counterexample:
  "trim (js ''a'') \<noteq> [] \<and>
   chunkDocument (js ''d'') (js ''t'') (js ''a'')
     (Some \<lparr>maxChunkSize = Some 0, minChunkSize = None\<rparr>) = None"
proof -
  have a: "trim (js ''a'') \<noteq> []"
    by code_simp
  have "maxSizeOf (Some \<lparr>maxChunkSize = Some 0, minChunkSize = None\<rparr>) \<le> 0"
    by (simp add: maxSizeOf_def)
  then show ?thesis using a chunkDocument_diverges by blast
qed

lemma chunkDocument_example:
  "chunkDocument (js ''d'') (js ''t'') (js ''ab      c'')
     (Some \<lparr>maxChunkSize = Some 4, minChunkSize = Some 3\<rparr>) =
   Some [\<lparr>chunkId = js ''d#chunk-0'', docId = js ''d'', title = js ''t'', chunk_text = js ''ab ''\<rparr>,
         \<lparr>chunkId = js ''d#chunk-1'', docId = js ''d'', title = js ''t'', chunk_text = js ''c''\<rparr>]"
  by code_simp

text \<open>
  Claim C2. Whatever the input and the chunking parameters, the chunk at position \<open>i\<close>
  (counted from 0) of the returned sequence has the \<open>chunkId\<close> \<open>"{docId}#chunk-{i}"\<close>,
  so that the identifiers are pairwise distinct and number the chunks \<open>0..n-1\<close> without
  gap or repeat. A sequence is returned whenever \<open>maxChunkSize\<close> is positive.
\<close>

theorem chunkDocument_chunkIds:
  "(0 < maxSizeOf options \<longrightarrow> (\<exists>cs. chunkDocument d t input options = Some cs)) \<and>
   (\<forall>cs. chunkDocument d t input options = Some cs \<longrightarrow>
      (\<forall>i<length cs. chunkId (cs ! i) = d @ js ''#chunk-'' @ numberToString i) \<and>
      distinct (map chunkId cs))"
proof (intro conjI allI impI)
  assume "0 < maxSizeOf options"
  then show "\<exists>cs. chunkDocument d t input options = Some cs"
    by (rule chunkDocument_total)
next
  fix cs i
  assume "chunkDocument d t input options = Some cs" "i < length cs"
  then show "chunkId (cs ! i) = d @ js ''#chunk-'' @ numberToString i"
    using chunkDocument_shape [of d t input options cs] by (auto simp: mkChunk_def)
next
  fix cs
  assume "chunkDocument d t input options = Some cs"
  then obtain merged where "cs = map (mkChunk d t) (zip merged [0..<length merged])"
    using chunkDocument_shape by blast
  then show "distinct (map chunkId cs)"
    using chunkIds_distinct [of d "length merged"] by (simp only: mkChunk_ids)
qed

theorem chunkDocument_chunkIds_witness:
  "chunkDocument (js ''d'') (js ''t'') (js ''ab      c'')
     (Some \<lparr>maxChunkSize = Some 4, minChunkSize = Some 3\<rparr>) =
   Some [\<lparr>chunkId = js ''d#chunk-0'', docId = js ''d'', title = js ''t'', chunk_text = js ''ab ''\<rparr>,
         \<lparr>chunkId = js ''d#chunk-1'', docId = js ''d'', title = js ''t'', chunk_text = js ''c''\<rparr>] \<and>
   js ''d#chunk-0'' = js ''d'' @ js ''#chunk-'' @ numberToString 0 \<and>
   js ''d#chunk-1'' = js ''d'' @ js ''#chunk-'' @ numberToString 1 \<and>
   js ''d#chunk-0'' \<noteq> js ''d#chunk-1''"
proof -
  let ?cs = "[\<lparr>chunkId = js ''d#chunk-0'', docId = js ''d'', title = js ''t'', chunk_text = js ''ab ''\<rparr>,
         \<lparr>chunkId = js ''d#chunk-1'', docId = js ''d'', title = js ''t'', chunk_text = js ''c''\<rparr>]"
  have ev: "chunkDocument (js ''d'') (js ''t'') (js ''ab      c'')
     (Some \<lparr>maxChunkSize = Some 4, minChunkSize = Some 3\<rparr>) = Some ?cs"
    by (rule chunkDocument_example)
  with chunkDocument_chunkIds [of "Some \<lparr>maxChunkSize = Some 4, minChunkSize = Some 3\<rparr>"
      "js ''d''" "js ''t''" "js ''ab      c''"]
  have ids: "\<forall>i<length ?cs. chunkId (?cs ! i) = js ''d'' @ js ''#chunk-'' @ numberToString i"
    and dist: "distinct (map chunkId ?cs)" by blast+
  from ids [rule_format, of 0] have i0: "js ''d#chunk-0'' = js ''d'' @ js ''#chunk-'' @ numberToString 0"
    by simp
  from ids [rule_format, of 1] have i1: "js ''d#chunk-1'' = js ''d'' @ js ''#chunk-'' @ numberToString 1"
    by simp
  from dist have "js ''d#chunk-0'' \<noteq> js ''d#chunk-1''" by simp
  with ev i0 i1 show ?thesis by blast
qed



text \<open>
  Claim C4 fails on the code. A run of white space that fills a whole slice of a hard
  split becomes an empty raw chunk; the merge pass drops it when the chunk before it has
  reached \<open>minChunkSize\<close> and otherwise glues it on as a trailing space, which can
  push a later merge over \<open>maxChunkSize\<close>. On the content \<open>"ab      c"\<close> with
  \<open>maxChunkSize = 4\<close>, \<open>minChunkSize = 2\<close> gives one chunk and
  \<open>minChunkSize = 3\<close> gives two.
\<close>

theorem minChunkSize_raises_chunk_count:
  "map_option (map chunk_text) (chunkDocument (js ''d'') (js ''t'') (js ''ab      c'')
     (Some \<lparr>maxChunkSize = Some 4, minChunkSize = Some 2\<rparr>)) = Some [js ''ab c''] \<and>
   map_option (map chunk_text) (chunkDocument (js ''d'') (js ''t'') (js ''ab      c'')
     (Some \<lparr>maxChunkSize = Some 4, minChunkSize = Some 3\<rparr>)) = Some [js ''ab '', js ''c'']"
  by code_simp

section \<open>Properties of the services and the pipelines\<close>

subsection \<open>Source deduplication\<close>

lemma sourcesLoop_keys:
  "fst ` set (sourcesLoop acc ms) =
   fst ` set acc \<union> (\<lambda>m. Metadata.docId (PineconeMatch.metadata m)) ` set ms"
  by (induction ms arbitrary: acc) auto

lemma sourcesLoop_distinct:
  "distinct (map fst acc) \<Longrightarrow> distinct (map fst (sourcesLoop acc ms))"
  by (induction ms arbitrary: acc) auto

lemma sourcesLoop_docIds:
  "\<forall>p\<in>set acc. Source.docId (snd p) = fst p \<Longrightarrow>
   \<forall>p\<in>set (sourcesLoop acc ms). Source.docId (snd p) = fst p"
proof (induction ms arbitrary: acc)
  case Nil
  then show ?case by simp
next
  case (Cons m ms)
  let ?acc' = "acc @ [(Metadata.docId (PineconeMatch.metadata m), sourceOf m)]"
  have "\<forall>p\<in>set ?acc'. Source.docId (snd p) = fst p"
    using Cons.prems by (simp add: sourceOf_def)
  then have "\<forall>p\<in>set (sourcesLoop ?acc' ms). Source.docId (snd p) = fst p"
    by (rule Cons.IH)
  moreover have "\<forall>p\<in>set (sourcesLoop acc ms). Source.docId (snd p) = fst p"
    using Cons.prems by (rule Cons.IH)
  ultimately show ?case by simp
qed

lemma sourcesLoop_seen:
  "\<forall>m\<in>set ms. Metadata.docId (PineconeMatch.metadata m) \<in> fst ` set acc \<Longrightarrow>
   sourcesLoop acc ms = acc"
  by (induction ms arbitrary: acc) auto

lemma upt_Suc_shift: "[0..<Suc n] = 0 # map Suc [0..<n]"
  by (simp add: upt_conv_Cons map_Suc_upt del: upt_Suc)

lemma first_occurrences_Cons:
  "map (\<lambda>i. g ((x # xs) ! i))
     (filter (\<lambda>i. f ((x # xs) ! i) \<notin> S \<union> f ` set (take i (x # xs))) [0..<length (x # xs)]) =
   (if f x \<notin> S then [g x] else []) @
   map (\<lambda>i. g (xs ! i))
     (filter (\<lambda>i. f (xs ! i) \<notin> insert (f x) S \<union> f ` set (take i xs)) [0..<length xs])"
proof -
  have "filter (\<lambda>i. f ((x # xs) ! i) \<notin> S \<union> f ` set (take i (x # xs))) [0..<length (x # xs)] =
        (if f x \<notin> S then [0] else []) @
        map Suc (filter (\<lambda>i. f (xs ! i) \<notin> insert (f x) S \<union> f ` set (take i xs)) [0..<length xs])"
    by (auto simp: upt_Suc_shift filter_map comp_def simp del: upt_Suc intro!: filter_cong)
  then show ?thesis by (simp add: comp_def)
qed

lemma sourcesLoop_first_occurrences:
  "map snd (sourcesLoop acc ms) =
   map snd acc @
   map (\<lambda>i. sourceOf (ms ! i))
     (filter (\<lambda>i. Metadata.docId (PineconeMatch.metadata (ms ! i)) \<notin>
                   fst ` set acc \<union>
                   (\<lambda>m. Metadata.docId (PineconeMatch.metadata m)) ` set (take i ms))
        [0..<length ms])"
proof (induction ms arbitrary: acc)
  case Nil
  then show ?case by simp
next
  case (Cons m ms)
  let ?key = "\<lambda>m :: 'a PineconeMatch. Metadata.docId (PineconeMatch.metadata m)"
  note shift = first_occurrences_Cons [of sourceOf m ms ?key "fst ` set acc"]
  show ?case
  proof (cases "?key m \<in> fst ` set acc")
    case True
    then have seen: "insert (?key m) (fst ` set acc) = fst ` set acc" by auto
    have "map snd (sourcesLoop acc (m # ms)) = map snd (sourcesLoop acc ms)"
      using True by simp
    also have "\<dots> = map snd acc @ map (\<lambda>i. sourceOf (ms ! i))
        (filter (\<lambda>i. ?key (ms ! i) \<notin> fst ` set acc \<union> ?key ` set (take i ms)) [0..<length ms])"
      by (rule Cons.IH)
    finally show ?thesis
      unfolding shift seen using True by simp
  next
    case False
    have acc': "fst ` set (acc @ [(?key m, sourceOf m)]) = insert (?key m) (fst ` set acc)"
      by simp
    have "map snd (sourcesLoop acc (m # ms)) =
          map snd (sourcesLoop (acc @ [(?key m, sourceOf m)]) ms)"
      using False by simp
    also have "\<dots> = map snd (acc @ [(?key m, sourceOf m)]) @ map (\<lambda>i. sourceOf (ms ! i))
        (filter (\<lambda>i. ?key (ms ! i) \<notin> fst ` set (acc @ [(?key m, sourceOf m)]) \<union> ?key ` set (take i ms))
           [0..<length ms])"
      by (rule Cons.IH)
    finally show ?thesis
      unfolding shift acc' using False by simp
  qed
qed

text \<open>
  Claim C5. \<open>extractSources\<close> returns, in the order of the list, the source
  \<open>{docId, title}\<close> of exactly those matches whose \<open>docId\<close> does not occur at an
  earlier position: one source for each distinct \<open>docId\<close>, taken from the first match
  that carries it (so the first title wins), in first-occurrence order. The \<open>docId\<close>s of
  the sources are pairwise distinct and are the \<open>docId\<close>s of the matches. In particular
  a non-empty list of matches that share one \<open>docId\<close> gives the single source of its
  first match.
\<close>

theorem extractSources_first_occurrence:
  "extractSources ms =
     map (\<lambda>i. \<lparr>Source.docId = Metadata.docId (PineconeMatch.metadata (ms ! i)),
                title = Metadata.title (PineconeMatch.metadata (ms ! i))\<rparr>)
       (filter (\<lambda>i. Metadata.docId (PineconeMatch.metadata (ms ! i)) \<notin>
                     (\<lambda>m. Metadata.docId (PineconeMatch.metadata m)) ` set (take i ms))
          [0..<length ms]) \<and>
   distinct (map Source.docId (extractSources ms)) \<and>
   set (map Source.docId (extractSources ms)) =
     (\<lambda>m. Metadata.docId (PineconeMatch.metadata m)) ` set ms \<and>
   (ms \<noteq> [] \<and>
    (\<forall>m\<in>set ms. Metadata.docId (PineconeMatch.metadata m) =
                  Metadata.docId (PineconeMatch.metadata (hd ms))) \<longrightarrow>
    extractSources ms =
      [\<lparr>Source.docId = Metadata.docId (PineconeMatch.metadata (hd ms)),
        title = Metadata.title (PineconeMatch.metadata (hd ms))\<rparr>])"
proof (intro conjI impI)
  show "extractSources ms =
     map (\<lambda>i. \<lparr>Source.docId = Metadata.docId (PineconeMatch.metadata (ms ! i)),
                title = Metadata.title (PineconeMatch.metadata (ms ! i))\<rparr>)
       (filter (\<lambda>i. Metadata.docId (PineconeMatch.metadata (ms ! i)) \<notin>
                     (\<lambda>m. Metadata.docId (PineconeMatch.metadata m)) ` set (take i ms))
          [0..<length ms])"
    using sourcesLoop_first_occurrences [of "[]" ms]
    by (simp add: extractSources_def sourceOf_def)
next
  have ids: "map Source.docId (extractSources ms) = map fst (sourcesLoop [] ms)"
    using sourcesLoop_docIds [of "[]" ms] by (simp add: extractSources_def)
  show "distinct (map Source.docId (extractSources ms))"
    unfolding ids by (rule sourcesLoop_distinct) simp
  show "set (map Source.docId (extractSources ms)) =
     (\<lambda>m. Metadata.docId (PineconeMatch.metadata m)) ` set ms"
    unfolding ids using sourcesLoop_keys [of "[]" ms] by simp
next
  assume a: "ms \<noteq> [] \<and>
    (\<forall>m\<in>set ms. Metadata.docId (PineconeMatch.metadata m) =
                  Metadata.docId (PineconeMatch.metadata (hd ms)))"
  then obtain m ms' where ms: "ms = m # ms'" by (cases ms) auto
  let ?acc = "[(Metadata.docId (PineconeMatch.metadata m), sourceOf m)]"
  have "\<forall>x\<in>set ms'. Metadata.docId (PineconeMatch.metadata x) \<in> fst ` set ?acc"
    using a ms by simp
  then have "sourcesLoop ?acc ms' = ?acc"
    by (rule sourcesLoop_seen)
  then show "extractSources ms =
      [\<lparr>Source.docId = Metadata.docId (PineconeMatch.metadata (hd ms)),
        title = Metadata.title (PineconeMatch.metadata (hd ms))\<rparr>]"
    by (simp add: extractSources_def ms sourceOf_def)
qed

theorem extractSources_first_occurrence_witness:
  "extractSources
     [\<lparr>PineconeMatch.id' = js ''d1#chunk-0'', score = (9 :: int),
       metadata = \<lparr>Metadata.docId = js ''d1'', title = js ''First'', chunkText = js ''x''\<rparr>\<rparr>,
      \<lparr>PineconeMatch.id' = js ''d1#chunk-1'', score = 8,
       metadata = \<lparr>Metadata.docId = js ''d1'', title = js ''Later'', chunkText = js ''y''\<rparr>\<rparr>] =
   [\<lparr>Source.docId = js ''d1'', title = js ''First''\<rparr>]"
  using extractSources_first_occurrence
    [of "[\<lparr>PineconeMatch.id' = js ''d1#chunk-0'', score = (9 :: int),
       metadata = \<lparr>Metadata.docId = js ''d1'', title = js ''First'', chunkText = js ''x''\<rparr>\<rparr>,
      \<lparr>PineconeMatch.id' = js ''d1#chunk-1'', score = 8,
       metadata = \<lparr>Metadata.docId = js ''d1'', title = js ''Later'', chunkText = js ''y''\<rparr>\<rparr>]"]
  by simp

lemma getApiKey_Inr: "getApiKey w = Inr k \<Longrightarrow> envSet (HUGGINGFACE_API_KEY w) = Some k"
  by (auto simp: getApiKey_def split: option.splits)



lemma normalizeMatches_shape:
  "list_all2
     (\<lambda>r m. \<exists>md sc. ScoredPineconeRecord.metadata r = Some md \<and> ScoredPineconeRecord.score r = Some sc \<and>
        PineconeMatch.id' m = ScoredPineconeRecord.id' r \<and> PineconeMatch.score m = sc \<and>
        Metadata.docId (PineconeMatch.metadata m) = fieldString w (md (js ''docId'')) \<and>
        Metadata.title (PineconeMatch.metadata m) = fieldString w (md (js ''title'')) \<and>
        Metadata.chunkText (PineconeMatch.metadata m) = fieldString w (md (js ''chunkText'')))
     (filter (\<lambda>r. ScoredPineconeRecord.metadata r \<noteq> None \<and> ScoredPineconeRecord.score r \<noteq> None) rs)
     (normalizeMatches w rs)"
  by (induction rs) (auto split: option.splits)

lemma queryVectors_Inr:
  assumes "queryVectors w vector k s = (Inr ms, s')"
  shows "\<exists>s1 results. getIndex w s = (Inr (), s1) \<and> index_query w (calls s1) vector k = Inr results \<and>
           ms = normalizeMatches w (case matches results of None \<Rightarrow> [] | Some rs \<Rightarrow> rs) \<and>
           s' = record_call (IndexQuery vector k) s1"
  using assms
  by (auto simp: queryVectors_def split: prod.splits sum.splits)

text \<open>
  Claim C10. When \<open>queryVectors\<close> returns matches, the index has answered the query,
  and the matches are, in order, the raw matches that have both a metadata object and a
  score: each keeps its id and its score, and its \<open>docId\<close>, \<open>title\<close> and
  \<open>chunkText\<close> are the strings made of the raw fields, the empty string for a field
  that is missing or falsy. The other raw matches are dropped without a trace, so the
  list is at most as long as the raw one, and it can be shorter than \<open>topK\<close> although
  the index sent \<open>topK\<close> raw matches: with \<open>topK = 1\<close> and one raw match without
  metadata the list is empty.
\<close>

theorem queryVectors_matches:
  "(\<forall>ms s'. queryVectors w vector k s = (Inr ms, s') \<longrightarrow>
      (\<exists>s1 results raw.
         getIndex w s = (Inr (), s1) \<and> index_query w (calls s1) vector k = Inr results \<and>
         raw = (case matches results of None \<Rightarrow> [] | Some rs \<Rightarrow> rs) \<and>
         list_all2
           (\<lambda>r m. \<exists>md sc. ScoredPineconeRecord.metadata r = Some md \<and>
              ScoredPineconeRecord.score r = Some sc \<and>
              PineconeMatch.id' m = ScoredPineconeRecord.id' r \<and> PineconeMatch.score m = sc \<and>
              Metadata.docId (PineconeMatch.metadata m) = fieldString w (md (js ''docId'')) \<and>
              Metadata.title (PineconeMatch.metadata m) = fieldString w (md (js ''title'')) \<and>
              Metadata.chunkText (PineconeMatch.metadata m) = fieldString w (md (js ''chunkText'')))
           (filter (\<lambda>r. ScoredPineconeRecord.metadata r \<noteq> None \<and>
                        ScoredPineconeRecord.score r \<noteq> None) raw)
           ms \<and>
         length ms \<le> length raw)) \<and>
   (\<forall>field. field = None \<or> (\<exists>v. field = Some v \<and> isFalsy w v) \<longrightarrow> fieldString w field = []) \<and>
   (\<exists>(w0 :: int world) s0 results.
      index_query w0 (calls s0) [] 1 = Inr results \<and>
      length (case matches results of None \<Rightarrow> [] | Some rs \<Rightarrow> rs) = 1 \<and>
      fst (queryVectors w0 [] 1 s0) = Inr [])"
proof (intro conjI allI impI)
  fix ms s'
  assume "queryVectors w vector k s = (Inr ms, s')"
  from queryVectors_Inr [OF this] obtain s1 results where
    r: "getIndex w s = (Inr (), s1)" "index_query w (calls s1) vector k = Inr results"
    "ms = normalizeMatches w (case matches results of None \<Rightarrow> [] | Some rs \<Rightarrow> rs)" by blast
  define raw where "raw = (case matches results of None \<Rightarrow> [] | Some rs \<Rightarrow> rs)"
  let ?R = "\<lambda>r m. \<exists>md sc. ScoredPineconeRecord.metadata r = Some md \<and>
              ScoredPineconeRecord.score r = Some sc \<and>
              PineconeMatch.id' m = ScoredPineconeRecord.id' r \<and> PineconeMatch.score m = sc \<and>
              Metadata.docId (PineconeMatch.metadata m) = fieldString w (md (js ''docId'')) \<and>
              Metadata.title (PineconeMatch.metadata m) = fieldString w (md (js ''title'')) \<and>
              Metadata.chunkText (PineconeMatch.metadata m) = fieldString w (md (js ''chunkText''))"
  let ?keep = "\<lambda>r :: 'a ScoredPineconeRecord. ScoredPineconeRecord.metadata r \<noteq> None \<and>
                        ScoredPineconeRecord.score r \<noteq> None"
  have shape: "list_all2 ?R (filter ?keep raw) ms"
    unfolding r(3) raw_def [symmetric] by (rule normalizeMatches_shape)
  then have "length ms = length (filter ?keep raw)"
    by (simp add: list_all2_lengthD)
  then have "length ms \<le> length raw" by simp
  with r(1,2) raw_def shape
  show "\<exists>s1 results raw.
         getIndex w s = (Inr (), s1) \<and> index_query w (calls s1) vector k = Inr results \<and>
         raw = (case matches results of None \<Rightarrow> [] | Some rs \<Rightarrow> rs) \<and>
         list_all2 ?R (filter ?keep raw) ms \<and> length ms \<le> length raw"
    by blast
next
  fix field :: "'a RecordMetadataValue option"
  assume "field = None \<or> (\<exists>v. field = Some v \<and> isFalsy w v)"
  then show "fieldString w field = []"
    by (auto simp: fieldString_def)
next
  let ?rs = "[\<lparr>ScoredPineconeRecord.id' = js ''d1#chunk-0'', score = Some (1 :: int), metadata = None\<rparr>]"
  let ?w0 = "demoWorld (Inr (Flat [1])) (Inr ()) (Inr \<lparr>matches = Some ?rs\<rparr>) (Inr \<lparr>choices = None\<rparr>)"
  have "index_query ?w0 (calls freshState) [] 1 = Inr \<lparr>matches = Some ?rs\<rparr>"
    by (simp add: demoWorld_def)
  moreover have "length (case matches \<lparr>matches = Some ?rs\<rparr> of None \<Rightarrow> [] | Some rs \<Rightarrow> rs) = 1"
    by simp
  moreover have "fst (queryVectors ?w0 [] 1 freshState) = Inr []"
    by (simp add: queryVectors_def getIndex_def getClient_def demoWorld_def freshState_def
        envSet_def js_def)
  ultimately show "\<exists>(w0 :: int world) s0 results.
      index_query w0 (calls s0) [] 1 = Inr results \<and>
      length (case matches results of None \<Rightarrow> [] | Some rs \<Rightarrow> rs) = 1 \<and>
      fst (queryVectors w0 [] 1 s0) = Inr []"
    by blast
qed

subsection \<open>Call histories\<close>

lemma later_refl: "later P s s"
  by (simp add: later_def)

lemma later_record_call: "P c \<Longrightarrow> later P s (record_call c s)"
  by (simp add: later_def record_call_def)

lemma later_trans:
  assumes "later P s s'" "later Q s' s''" "\<And>c. P c \<Longrightarrow> R c" "\<And>c. Q c \<Longrightarrow> R c"
  shows "later R s s''"
proof -
  from assms(1) obtain e1 where e1: "calls s' = calls s @ e1" "\<forall>c\<in>set e1. P c"
    by (auto simp: later_def)
  from assms(2) obtain e2 where e2: "calls s'' = calls s' @ e2" "\<forall>c\<in>set e2. Q c"
    by (auto simp: later_def)
  have "calls s'' = calls s @ (e1 @ e2)" using e1(1) e2(1) by simp
  moreover have "\<forall>c\<in>set (e1 @ e2). R c" using e1(2) e2(2) assms(3,4) by auto
  ultimately have "\<exists>ext. calls s'' = calls s @ ext \<and> (\<forall>c\<in>set ext. R c)" by blast
  then show ?thesis using assms(1,2) by (simp add: later_def)
qed


lemma indexAvailable_later: "indexAvailable w s \<Longrightarrow> later P s s' \<Longrightarrow> indexAvailable w s'"
  by (auto simp: indexAvailable_def later_def)

lemma getClient_later: "getClient w s = (r, s') \<Longrightarrow> calls s' = calls s \<and> later P s s'"
  by (auto simp: getClient_def later_def split: if_splits option.splits)

lemma getIndex_later: "getIndex w s = (r, s') \<Longrightarrow> calls s' = calls s \<and> later P s s'"
  by (auto simp: getIndex_def getClient_def later_def split: if_splits option.splits)

lemma getIndex_available:
  "indexAvailable w s \<Longrightarrow> \<exists>s'. getIndex w s = (Inr (), s') \<and> calls s' = calls s \<and> later P s s'"
  by (auto simp: getIndex_def getClient_def later_def indexAvailable_def)

lemma callFeatureExtraction_cases:
  assumes "callFeatureExtraction w input s = (r, s')"
  shows "(\<exists>err. getApiKey w = Inl err \<and> r = Inl err \<and> s' = s) \<or>
         (\<exists>apiKey. getApiKey w = Inr apiKey \<and> r = featureExtraction w (calls s) apiKey input \<and>
            s' = record_call (FeatureExtraction apiKey input) s)"
  using assms by (auto simp: callFeatureExtraction_def split: sum.splits)

lemma embedText_Inr:
  assumes "embedText w input s = (Inr v, s')"
  shows "\<exists>apiKey. getApiKey w = Inr apiKey \<and> s' = record_call (FeatureExtraction apiKey input) s"
proof -
  obtain r s1 where c: "callFeatureExtraction w input s = (r, s1)"
    by (cases "callFeatureExtraction w input s") auto
  with assms have "s1 = s'" "\<exists>x. r = Inr x"
    by (auto simp: embedText_def split: sum.splits)
  with callFeatureExtraction_cases [OF c] show ?thesis by auto
qed

text \<open>
  Claim C6. For every validated request, when the question is embedded and the query of
  the vector index yields no match, the ask handler answers with status 200, the answer
  \<open>I don't have any documents to answer this question. Please ingest some documents first.\<close>
  and no sources. The calls it has made are the embedding of the question and the query
  of the index: no call reaches the generation service.
\<close>

theorem askHandler_no_matches:
  assumes "embedText w (question req) s = (Inr v, s1)"
    and "queryVectors w v (topK req) s1 = (Inr [], s2)"
  shows "askHandler w (Validated req) s =
           (\<lparr>statusCode = 200,
             body = AskPayload
               \<lparr>answer = js ''I don't have any documents to answer this question. Please ingest some documents first.'',
                sources = []\<rparr>\<rparr>, s2) \<and>
         (\<exists>apiKey. calls s2 = calls s @ [FeatureExtraction apiKey (question req), IndexQuery v (topK req)])"
proof
  show "askHandler w (Validated req) s =
           (\<lparr>statusCode = 200,
             body = AskPayload
               \<lparr>answer = js ''I don't have any documents to answer this question. Please ingest some documents first.'',
                sources = []\<rparr>\<rparr>, s2)"
    using assms by (simp add: askHandler_def askSteps_def success_def NO_DOCUMENTS_ANSWER_def)
  from embedText_Inr [OF assms(1)] obtain apiKey where
    k: "s1 = record_call (FeatureExtraction apiKey (question req)) s" by blast
  from queryVectors_Inr [OF assms(2)] obtain s1' where
    q: "getIndex w s1 = (Inr (), s1')" "s2 = record_call (IndexQuery v (topK req)) s1'" by blast
  from getIndex_later [OF q(1)] have "calls s1' = calls s1" by simp
  with k q(2) have "calls s2 = calls s @ [FeatureExtraction apiKey (question req), IndexQuery v (topK req)]"
    by (simp add: record_call_def)
  then show "\<exists>apiKey. calls s2 = calls s @ [FeatureExtraction apiKey (question req), IndexQuery v (topK req)]"
    by blast
qed

lemma demo_embedText:
  "embedText (demoWorld (Inr (Flat [1])) u q c) input freshState =
   (Inr [1], \<lparr>calls = [FeatureExtraction (js ''hf-key'') input], pineconeClient = False, pineconeIndex = False\<rparr>)"
  by (simp add: embedText_def callFeatureExtraction_def getApiKey_def envSet_def demoWorld_def
      freshState_def record_call_def unwrapEmbedding_def js_def)

theorem askHandler_no_matches_witness:
  "askHandler (demoWorld (Inr (Flat [1])) (Inr ()) (Inr \<lparr>matches = Some []\<rparr>) (Inr \<lparr>choices = None\<rparr>))
     (Validated \<lparr>question = js ''Q'', topK = 3\<rparr>) freshState =
   (\<lparr>statusCode = 200,
     body = AskPayload
       \<lparr>answer = js ''I don't have any documents to answer this question. Please ingest some documents first.'',
        sources = []\<rparr>\<rparr>,
    \<lparr>calls = [FeatureExtraction (js ''hf-key'') (js ''Q''), IndexQuery [1] 3],
     pineconeClient = True, pineconeIndex = True\<rparr>)"
proof -
  let ?w = "demoWorld (Inr (Flat [1])) (Inr ()) (Inr \<lparr>matches = Some []\<rparr>) (Inr \<lparr>choices = None\<rparr>)"
  let ?req = "\<lparr>question = js ''Q'', topK = 3\<rparr>"
  let ?s1 = "\<lparr>calls = [FeatureExtraction (js ''hf-key'') (js ''Q'')], pineconeClient = False,
              pineconeIndex = False\<rparr> :: int state"
  let ?s2 = "\<lparr>calls = [FeatureExtraction (js ''hf-key'') (js ''Q''), IndexQuery [1] 3],
              pineconeClient = True, pineconeIndex = True\<rparr> :: int state"
  have a: "embedText ?w (question ?req) freshState = (Inr [1], ?s1)"
    by (simp add: demo_embedText)
  have b: "queryVectors ?w [1] (topK ?req) ?s1 = (Inr [], ?s2)"
    by (simp add: queryVectors_def getIndex_def getClient_def envSet_def demoWorld_def
        record_call_def js_def)
  from askHandler_no_matches [OF a b] show ?thesis by simp
qed

theorem queryVectors_matches_witness:
  "fst (queryVectors
     (demoWorld (Inr (Flat [1])) (Inr ())
        (Inr \<lparr>matches = Some
           [\<lparr>ScoredPineconeRecord.id' = js ''a'', score = Some 7,
             metadata = Some [js ''docId'' \<mapsto> MString (js ''d1''), js ''chunkText'' \<mapsto> MNumber 0]\<rparr>,
            \<lparr>ScoredPineconeRecord.id' = js ''b'', score = None,
             metadata = Some [js ''docId'' \<mapsto> MString (js ''d2'')]\<rparr>]\<rparr>)
        (Inr \<lparr>choices = None\<rparr>))
     [1] 2 freshState) =
   Inr [\<lparr>PineconeMatch.id' = js ''a'', score = 7,
         metadata = \<lparr>Metadata.docId = js ''d1'', title = [], chunkText = []\<rparr>\<rparr>] \<and>
   length [\<lparr>PineconeMatch.id' = js ''a'', score = 7 :: int,
         metadata = \<lparr>Metadata.docId = js ''d1'', title = [], chunkText = []\<rparr>\<rparr>] \<le> 2"
proof -
  let ?raw = "[\<lparr>ScoredPineconeRecord.id' = js ''a'', score = Some (7 :: int),
             metadata = Some [js ''docId'' \<mapsto> MString (js ''d1''), js ''chunkText'' \<mapsto> MNumber 0]\<rparr>,
            \<lparr>ScoredPineconeRecord.id' = js ''b'', score = None,
             metadata = Some [js ''docId'' \<mapsto> MString (js ''d2'')]\<rparr>]"
  let ?w = "demoWorld (Inr (Flat [1])) (Inr ()) (Inr \<lparr>matches = Some ?raw\<rparr>) (Inr \<lparr>choices = None\<rparr>)"
  let ?ms = "[\<lparr>PineconeMatch.id' = js ''a'', score = 7 :: int,
         metadata = \<lparr>Metadata.docId = js ''d1'', title = [], chunkText = []\<rparr>\<rparr>]"
  let ?s' = "\<lparr>calls = [IndexQuery [1] 2], pineconeClient = True, pineconeIndex = True\<rparr> :: int state"
  have run: "queryVectors ?w [1] 2 freshState = (Inr ?ms, ?s')"
    by (simp add: queryVectors_def getIndex_def getClient_def envSet_def demoWorld_def
        freshState_def record_call_def fieldString_def isFalsy_def toJsString_def js_def)
  note queryVectors_matches [of ?w "[1]" 2 freshState, THEN conjunct1, rule_format, OF run]
  then have "length ?ms \<le> 2"
  proof (elim exE conjE)
    fix s1 results raw
    assume q: "index_query ?w (calls s1) [1] 2 = Inr results"
      "raw = (case matches results of None \<Rightarrow> [] | Some rs \<Rightarrow> rs)" "length ?ms \<le> length raw"
    from q(1) have "Inr \<lparr>matches = Some ?raw\<rparr> = (Inr results :: exn + int QueryResponse)"
      by (simp add: demoWorld_def)
    then have "results = \<lparr>matches = Some ?raw\<rparr>" by simp
    with q(2) have "raw = ?raw" by simp
    with q(3) show "length ?ms \<le> 2" by simp
  qed
  with run show ?thesis by simp
qed

subsection \<open>The ingest run\<close>

lemma later_trans_same: "later P s s1 \<Longrightarrow> later P s1 s2 \<Longrightarrow> later P s s2"
  by (rule later_trans)

lemma deleteByDocId_props:
  assumes "deleteByDocId w d s = (r, s')"
  shows "r = Inr () \<and> later (\<lambda>c. c = IndexDeleteMany d \<or> c = ConsoleWarn d) s s'"
proof -
  let ?P = "\<lambda>c :: 'a call. c = IndexDeleteMany d \<or> c = ConsoleWarn d"
  obtain ri si where gi: "getIndex w s = (ri, si)" by (cases "getIndex w s") auto
  from getIndex_later [OF gi] have si: "later ?P s si" by simp
  have a: "later ?P si (record_call (IndexDeleteMany d) si)"
    by (rule later_record_call) simp
  have b: "later ?P s1 (record_call (ConsoleWarn d) s1)" for s1 :: "'a state"
    by (rule later_record_call) simp
  have t: "later ?P s s1 \<Longrightarrow> later ?P s1 s2 \<Longrightarrow> later ?P s s2" for s1 s2
    by (rule later_trans)
  from assms gi show ?thesis
    by (auto simp: deleteByDocId_def deleteByDocIdTry_def split: sum.splits
        intro: t [OF si] t [OF si b] t [OF t [OF si a] b] t [OF si a])
qed

lemma callFeatureExtraction_later:
  "callFeatureExtraction w input s = (r, s') \<Longrightarrow> later (\<lambda>c. \<exists>k t. c = FeatureExtraction k t) s s'"
  using callFeatureExtraction_cases [of w input s r s']
  by (auto intro: later_refl later_record_call)

lemma embedLoop_later:
  "embedLoop w acc texts s = (r, s') \<Longrightarrow> later (\<lambda>c. \<exists>k t. c = FeatureExtraction k t) s s'"
proof (induction texts arbitrary: acc s)
  case Nil
  then show ?case by (simp add: later_refl)
next
  case (Cons input texts)
  obtain r1 s1 where c: "callFeatureExtraction w input s = (r1, s1)"
    by (cases "callFeatureExtraction w input s") auto
  note l1 = callFeatureExtraction_later [OF c]
  show ?case
  proof (cases r1)
    case (Inl err)
    with Cons.prems c show ?thesis using l1 by simp
  next
    case (Inr result)
    with Cons.prems c have "embedLoop w (acc @ [unwrapEmbedding result]) texts s1 = (r, s')"
      by simp
    from l1 Cons.IH [OF this] show ?thesis by (rule later_trans_same)
  qed
qed

lemma embedLoop_length:
  "embedLoop w acc texts s = (Inr es, s') \<Longrightarrow> length es = length acc + length texts"
proof (induction texts arbitrary: acc s)
  case Nil
  then show ?case by simp
next
  case (Cons input texts)
  obtain r1 s1 where c: "callFeatureExtraction w input s = (r1, s1)"
    by (cases "callFeatureExtraction w input s") auto
  with Cons.prems obtain result where
    "embedLoop w (acc @ [unwrapEmbedding result]) texts s1 = (Inr es, s')"
    by (cases r1) auto
  from Cons.IH [OF this] show ?case by simp
qed

lemma embedTexts_length:
  "embedTexts w texts s = (Inr es, s') \<Longrightarrow> length es = length texts"
  using embedLoop_length [of w "[]" texts s es s']
  by (auto simp: embedTexts_def split: if_splits prod.splits sum.splits)

lemma embedTexts_later:
  assumes "embedTexts w texts s = (r, s')"
  shows "later (\<lambda>c. \<exists>k t. c = FeatureExtraction k t) s s' \<and>
         (\<forall>err. r = Inl err \<longrightarrow> (\<exists>msg. err = AppError (Some (js ''HuggingFace'')) msg 502 True))"
proof (cases "length texts = 0")
  case True
  with assms show ?thesis by (auto simp: embedTexts_def later_refl)
next
  case False
  obtain r1 s1 where l: "embedLoop w [] texts s = (r1, s1)"
    by (cases "embedLoop w [] texts s") auto
  from embedLoop_later [OF l] assms False l show ?thesis
    by (auto simp: embedTexts_def ExternalServiceError_def split: sum.splits)
qed

lemma embedLoop_ok:
  assumes "getApiKey w = Inr apiKey" "\<forall>history input. \<exists>r. featureExtraction w history apiKey input = Inr r"
  shows "\<exists>es s'. embedLoop w acc texts s = (Inr es, s')"
proof (induction texts arbitrary: acc s)
  case Nil
  then show ?case by simp
next
  case (Cons input texts)
  from assms(2) obtain result where "featureExtraction w (calls s) apiKey input = Inr result" by blast
  then have "callFeatureExtraction w input s = (Inr result, record_call (FeatureExtraction apiKey input) s)"
    using assms(1) by (simp add: callFeatureExtraction_def)
  then show ?case using Cons.IH by simp
qed

lemma embedTexts_ok:
  assumes "getApiKey w = Inr apiKey" "\<forall>history input. \<exists>r. featureExtraction w history apiKey input = Inr r"
  shows "\<exists>es s'. embedTexts w texts s = (Inr es, s')"
  using embedLoop_ok [OF assms, of "[]" texts s] by (auto simp: embedTexts_def)

lemma upsertLoop_later:
  "upsertLoop w vectors i s = (r, s') \<Longrightarrow> later (\<lambda>c. \<exists>b. c = IndexUpsert b) s s'"
proof (induction w vectors i s rule: upsertLoop.induct)
  case (1 w vectors i s)
  let ?batch = "take UPSERT_BATCH_SIZE (drop i vectors)"
  let ?s1 = "record_call (IndexUpsert ?batch) s"
  have l1: "later (\<lambda>c. \<exists>b. c = IndexUpsert b) s ?s1"
    by (rule later_record_call) blast
  show ?case
  proof (cases "i < length vectors")
    case False
    with "1.prems" show ?thesis by (subst (asm) upsertLoop.simps) (simp add: later_refl)
  next
    case True
    show ?thesis
    proof (cases "index_upsert w (calls s) ?batch")
      case (Inl err)
      with True "1.prems" have "s' = ?s1"
        by (subst (asm) upsertLoop.simps) (simp add: Let_def)
      with l1 show ?thesis by simp
    next
      case (Inr u)
      with True "1.prems" have "upsertLoop w vectors (i + UPSERT_BATCH_SIZE) ?s1 = (r, s')"
        by (subst (asm) upsertLoop.simps) (simp add: Let_def)
      from l1 "1.IH" [OF True refl Inr this] show ?thesis
        by (rule later_trans_same)
    qed
  qed
qed

lemma upsertLoop_ok:
  "\<forall>history batch. index_upsert w history batch = Inr () \<Longrightarrow>
   \<exists>s'. upsertLoop w vectors i s = (Inr (), s')"
proof (induction w vectors i s rule: upsertLoop.induct)
  case (1 w vectors i s)
  show ?case
  proof (cases "i < length vectors")
    case False
    then show ?thesis by (subst upsertLoop.simps) simp
  next
    case True
    let ?batch = "take UPSERT_BATCH_SIZE (drop i vectors)"
    have u: "index_upsert w (calls s) ?batch = Inr ()" using "1.prems" by blast
    from "1.IH" [OF True refl u "1.prems"] obtain s' where
      "upsertLoop w vectors (i + UPSERT_BATCH_SIZE) (record_call (IndexUpsert ?batch) s) = (Inr (), s')"
      by blast
    then show ?thesis using True u by (subst upsertLoop.simps) (simp add: Let_def)
  qed
qed

lemma upsertVectors_later:
  assumes "upsertVectors w vectors s = (r, s')"
  shows "later (\<lambda>c. \<exists>b. c = IndexUpsert b) s s' \<and>
         (\<forall>err. r = Inl err \<longrightarrow> (\<exists>msg. err = AppError (Some (js ''Pinecone'')) msg 502 True))"
proof (cases "length vectors = 0")
  case True
  with assms show ?thesis by (auto simp: upsertVectors_def later_refl)
next
  case False
  obtain ri si where gi: "getIndex w s = (ri, si)" by (cases "getIndex w s") auto
  from getIndex_later [OF gi] have l0: "later (\<lambda>c. \<exists>b. c = IndexUpsert b) s si" by simp
  show ?thesis
  proof (cases ri)
    case (Inl err)
    with assms False gi l0 show ?thesis
      by (auto simp: upsertVectors_def ExternalServiceError_def)
  next
    case (Inr u)
    obtain r1 s1 where ul: "upsertLoop w vectors 0 si = (r1, s1)"
      by (cases "upsertLoop w vectors 0 si") auto
    from l0 upsertLoop_later [OF ul] have "later (\<lambda>c. \<exists>b. c = IndexUpsert b) s s1"
      by (rule later_trans) auto
    with assms False gi Inr ul show ?thesis
      by (auto simp: upsertVectors_def ExternalServiceError_def split: sum.splits)
  qed
qed

lemma upsertVectors_ok:
  assumes "\<forall>history batch. index_upsert w history batch = Inr ()" "indexAvailable w s"
  shows "\<exists>s'. upsertVectors w vectors s = (Inr (), s')"
proof -
  from getIndex_available [OF assms(2)] obtain si where gi: "getIndex w s = (Inr (), si)"
    by blast
  from upsertLoop_ok [OF assms(1)] obtain s1 where "upsertLoop w vectors 0 si = (Inr (), s1)"
    by blast
  with gi show ?thesis by (simp add: upsertVectors_def)
qed

lemma chunkDocument_default:
  "\<exists>cs. chunkDocument d t c None = Some cs"
  by (rule chunkDocument_total) (simp add: maxSizeOf_def DEFAULT_MAX_CHUNK_SIZE_def)

lemma ingestDocument_ok:
  assumes "getApiKey w = Inr apiKey"
    and "\<forall>history input. \<exists>r. featureExtraction w history apiKey input = Inr r"
    and "\<forall>history batch. index_upsert w history batch = Inr ()"
    and "indexAvailable w s"
  shows "\<exists>cs s'. chunkDocument (Document.id' doc) (Document.title doc) (Document.content doc) None = Some cs \<and>
           ingestDocument w doc s = Some (Inr (length cs), s') \<and> indexAvailable w s'"
proof -
  obtain cs where cs: "chunkDocument (Document.id' doc) (Document.title doc) (Document.content doc) None = Some cs"
    using chunkDocument_default by blast
  obtain r1 s1 where d: "deleteByDocId w (Document.id' doc) s = (r1, s1)"
    by (cases "deleteByDocId w (Document.id' doc) s") auto
  from deleteByDocId_props [OF d] have r1: "r1 = Inr ()" and l1: "indexAvailable w s1"
    using assms(4) indexAvailable_later by blast+
  show ?thesis
  proof (cases "cs = []")
    case True
    with cs d r1 l1 show ?thesis by (simp add: ingestDocument_def)
  next
    case False
    obtain es s2 where e: "embedTexts w (map chunk_text cs) s1 = (Inr es, s2)"
      using embedTexts_ok [OF assms(1,2)] by blast
    from embedTexts_later [OF e] l1 have l2: "indexAvailable w s2"
      using indexAvailable_later by blast
    obtain s3 where u: "upsertVectors w (map (vectorOf es) (zip cs [0..<length cs])) s2 = (Inr (), s3)"
      using upsertVectors_ok [OF assms(3) l2] by blast
    from upsertVectors_later [OF u] l2 have "indexAvailable w s3"
      using indexAvailable_later by blast
    with cs d r1 False e u show ?thesis by (simp add: ingestDocument_def Let_def)
  qed
qed

lemma ingestLoop_ok:
  assumes "getApiKey w = Inr apiKey"
    and "\<forall>history input. \<exists>r. featureExtraction w history apiKey input = Inr r"
    and "\<forall>history batch. index_upsert w history batch = Inr ()"
  shows "indexAvailable w s \<Longrightarrow>
         \<exists>css s'. list_all2 (\<lambda>doc cs. chunkDocument (Document.id' doc) (Document.title doc)
                               (Document.content doc) None = Some cs) docs css \<and>
           ingestLoop w n0 docs s = Some (Inr (n0 + sum_list (map length css)), s')"
proof (induction docs arbitrary: n0 s)
  case Nil
  then show ?case by simp
next
  case (Cons doc docs)
  from ingestDocument_ok [OF assms Cons.prems, of doc] obtain cs s1 where
    d: "chunkDocument (Document.id' doc) (Document.title doc) (Document.content doc) None = Some cs"
    "ingestDocument w doc s = Some (Inr (length cs), s1)" "indexAvailable w s1" by blast
  from Cons.IH [OF d(3), of "n0 + length cs"] obtain css s' where
    r: "list_all2 (\<lambda>doc cs. chunkDocument (Document.id' doc) (Document.title doc)
                               (Document.content doc) None = Some cs) docs css"
    "ingestLoop w (n0 + length cs) docs s1 = Some (Inr (n0 + length cs + sum_list (map length css)), s')"
    by blast
  show ?case
  proof (intro exI [of _ "cs # css"] exI [of _ s'] conjI)
    show "list_all2 (\<lambda>doc cs. chunkDocument (Document.id' doc) (Document.title doc)
                               (Document.content doc) None = Some cs) (doc # docs) (cs # css)"
      using d(1) r(1) by simp
    show "ingestLoop w n0 (doc # docs) s = Some (Inr (n0 + sum_list (map length (cs # css))), s')"
      using d(2) r(2) by (simp add: add.assoc)
  qed
qed


text \<open>
  Claim C7. In a world where the API key is set, the index handle can be had, and the
  embedding service and the upsert never throw, the ingest handler answers every batch
  with status 200, \<open>ingestedDocuments\<close> the number of documents of the request and
  \<open>ingestedChunks\<close> the sum over the documents of the number of chunks that the chunker
  makes of each; a document without chunks counts as a document and adds no chunk. In any
  world, the turn of the loop for a document without chunks ends without error after the
  deletion of the stale chunks: the only calls it makes are that deletion and its
  warning, no embedding and no upsert.
\<close>

theorem ingestHandler_counts:
  assumes "getApiKey w = Inr apiKey"
    and "\<forall>history input. \<exists>r. featureExtraction w history apiKey input = Inr r"
    and "\<forall>history batch. index_upsert w history batch = Inr ()"
    and "indexAvailable w s"
  shows "(\<exists>css s'.
            list_all2 (\<lambda>doc cs. chunkDocument (Document.id' doc) (Document.title doc)
                                  (Document.content doc) None = Some cs) docs css \<and>
            ingestHandler w (Validated docs) s =
              Some (\<lparr>statusCode = 200,
                     body = IngestPayload \<lparr>ingestedDocuments = length docs,
                                           ingestedChunks = sum_list (map length css)\<rparr>\<rparr>, s')) \<and>
         (\<forall>doc s0.
            chunkDocument (Document.id' doc) (Document.title doc) (Document.content doc) None = Some [] \<longrightarrow>
            (\<exists>s1. ingestDocument w doc s0 = Some (Inr 0, s1) \<and>
               (\<exists>ext. calls s1 = calls s0 @ ext \<and>
                  (\<forall>c\<in>set ext. c = IndexDeleteMany (Document.id' doc) \<or>
                                 c = ConsoleWarn (Document.id' doc)))))"
proof (intro conjI allI impI)
  from ingestLoop_ok [OF assms(1,2,3,4), of docs 0] obtain css s' where
    r: "list_all2 (\<lambda>doc cs. chunkDocument (Document.id' doc) (Document.title doc)
                                  (Document.content doc) None = Some cs) docs css"
    "ingestLoop w 0 docs s = Some (Inr (0 + sum_list (map length css)), s')" by blast
  from r(2) have "ingestHandler w (Validated docs) s =
              Some (\<lparr>statusCode = 200,
                     body = IngestPayload \<lparr>ingestedDocuments = length docs,
                                           ingestedChunks = sum_list (map length css)\<rparr>\<rparr>, s')"
    by (simp add: ingestHandler_def success_def)
  with r(1) show "\<exists>css s'.
            list_all2 (\<lambda>doc cs. chunkDocument (Document.id' doc) (Document.title doc)
                                  (Document.content doc) None = Some cs) docs css \<and>
            ingestHandler w (Validated docs) s =
              Some (\<lparr>statusCode = 200,
                     body = IngestPayload \<lparr>ingestedDocuments = length docs,
                                           ingestedChunks = sum_list (map length css)\<rparr>\<rparr>, s')"
    by blast
next
  fix doc :: Document and s0 :: "'a state"
  assume z: "chunkDocument (Document.id' doc) (Document.title doc) (Document.content doc) None = Some []"
  obtain r1 s1 where d: "deleteByDocId w (Document.id' doc) s0 = (r1, s1)"
    by (cases "deleteByDocId w (Document.id' doc) s0") auto
  from deleteByDocId_props [OF d] have r1: "r1 = Inr ()"
    and l: "later (\<lambda>c. c = IndexDeleteMany (Document.id' doc) \<or> c = ConsoleWarn (Document.id' doc)) s0 s1"
    by blast+
  from d r1 z have "ingestDocument w doc s0 = Some (Inr 0, s1)"
    by (simp add: ingestDocument_def)
  moreover from l have "\<exists>ext. calls s1 = calls s0 @ ext \<and>
                  (\<forall>c\<in>set ext. c = IndexDeleteMany (Document.id' doc) \<or>
                                 c = ConsoleWarn (Document.id' doc))"
    by (simp add: later_def)
  ultimately show "\<exists>s1. ingestDocument w doc s0 = Some (Inr 0, s1) \<and>
               (\<exists>ext. calls s1 = calls s0 @ ext \<and>
                  (\<forall>c\<in>set ext. c = IndexDeleteMany (Document.id' doc) \<or>
                                 c = ConsoleWarn (Document.id' doc)))"
    by blast
qed

lemma demo_getApiKey: "getApiKey (demoWorld e u q c) = Inr (js ''hf-key'')"
  by (simp add: getApiKey_def envSet_def demoWorld_def js_def)

lemma demo_indexAvailable: "indexAvailable (demoWorld e u q c) freshState"
  by (simp add: indexAvailable_def envSet_def demoWorld_def js_def)

lemma demo_blank_chunks:
  "chunkDocument (js ''a'') (js ''A'') (js '' '') None = Some []"
  by code_simp

lemma demo_hello_chunks:
  "chunkDocument (js ''b'') (js ''B'') (js ''Hello.'') None =
   Some [\<lparr>chunkId = js ''b#chunk-0'', docId = js ''b'', title = js ''B'', chunk_text = js ''Hello.''\<rparr>]"
  by code_simp

theorem ingestHandler_counts_witness:
  "\<exists>s'. ingestHandler
      (demoWorld (Inr (Flat [1])) (Inr ()) (Inr \<lparr>matches = None\<rparr>) (Inr \<lparr>choices = None\<rparr>))
      (Validated [\<lparr>Document.id' = js ''a'', title = js ''A'', content = js '' ''\<rparr>,
                  \<lparr>Document.id' = js ''b'', title = js ''B'', content = js ''Hello.''\<rparr>])
      freshState =
    Some (\<lparr>statusCode = 200,
           body = IngestPayload \<lparr>ingestedDocuments = 2, ingestedChunks = 1\<rparr>\<rparr>, s')"
proof -
  let ?w = "demoWorld (Inr (Flat [1])) (Inr ()) (Inr \<lparr>matches = None\<rparr>) (Inr \<lparr>choices = None\<rparr>)"
  let ?docs = "[\<lparr>Document.id' = js ''a'', title = js ''A'', content = js '' ''\<rparr>,
                \<lparr>Document.id' = js ''b'', title = js ''B'', content = js ''Hello.''\<rparr>]"
  have h2: "\<forall>history input. \<exists>r. featureExtraction ?w history (js ''hf-key'') input = Inr r"
    by (simp add: demoWorld_def)
  have h3: "\<forall>history batch. index_upsert ?w history batch = Inr ()"
    by (simp add: demoWorld_def)
  note ingestHandler_counts [OF demo_getApiKey h2 h3 demo_indexAvailable, of ?docs, THEN conjunct1]
  then show ?thesis
  proof (elim exE conjE)
    fix css s'
    assume l: "list_all2 (\<lambda>doc cs. chunkDocument (Document.id' doc) (Document.title doc)
                                  (Document.content doc) None = Some cs) ?docs css"
      and r: "ingestHandler ?w (Validated ?docs) freshState =
              Some (\<lparr>statusCode = 200,
                     body = IngestPayload \<lparr>ingestedDocuments = length ?docs,
                                           ingestedChunks = sum_list (map length css)\<rparr>\<rparr>, s')"
    from l have "css = [[], [\<lparr>chunkId = js ''b#chunk-0'', docId = js ''b'', title = js ''B'',
                              chunk_text = js ''Hello.''\<rparr>]]"
      by (auto simp: list_all2_Cons1 demo_blank_chunks demo_hello_chunks)
    with r show ?thesis by simp
  qed
qed






end
